theory Spec2Isabelle
  imports Complex_Main "HOL-Library.Word" "HOL-Library.Multiset"
    "HOL-Library.Char_ord" "HOL-Library.List_Lexorder"
begin

unbundle bit_operations_syntax

section \<open>Exceptions\<close>

text \<open>
  What the code throws, as values: the \<^verbatim>\<open>Error\<close> that \<^verbatim>\<open>CollectionManager\<close> throws for a
  collection that is not registered, the \<^verbatim>\<open>TypeError\<close> of the JavaScript runtime for a
  call of a value that is no function, the error with which SQLite rejects a statement, and
  the \<^verbatim>\<open>SyntaxError\<close> with which \<^verbatim>\<open>new RegExp\<close> rejects a pattern.  A function that can
  throw returns \<^verbatim>\<open>Inl\<close> of the exception or \<^verbatim>\<open>Inr\<close> of its result.
\<close>

datatype error =
  CollectionNotFound string
| TypeError string
| SqliteError string
| SyntaxError string

section \<open>Search results and the JavaScript Map\<close>

text \<open>
  A JavaScript number is modelled as a \<^typ>\<open>real\<close>: the arithmetic of the scoring code is
  read exactly, without the rounding of IEEE doubles.  A row returned by one of the
  searches of \<^verbatim>\<open>search.js\<close> is the object
  \<^verbatim>\<open>{id, path, title, collection, snippet, score}\<close>.
\<close>

record search_result =
  rid :: string
  rpath :: string
  rtitle :: string
  rcollection :: string
  rsnippet :: string
  rscore :: real

text \<open>
  The entry that \<^verbatim>\<open>fuseResults\<close> keeps per document id: the spread \<^verbatim>\<open>...result\<close>
  followed by the rank bookkeeping.  A rank is \<^verbatim>\<open>null\<close> (\<^const>\<open>None\<close>) or a number.
\<close>

record fused_entry = search_result +
  textRank :: "nat option"
  textScore :: real
  vectorRank :: "nat option"
  vectorScore :: real
  rrfScore :: real

text \<open>
  A JavaScript \<^verbatim>\<open>Map\<close> iterates in insertion order, and \<^verbatim>\<open>set\<close> on a key that is
  present keeps the key's position: an association list updated in place.
\<close>

type_synonym 'v jsmap = "(string \<times> 'v) list"

definition map_get :: "'v jsmap \<Rightarrow> string \<Rightarrow> 'v option" where
  "map_get m k = map_of m k"

fun map_set :: "'v jsmap \<Rightarrow> string \<Rightarrow> 'v \<Rightarrow> 'v jsmap" where
  "map_set [] k v = [(k, v)]"
| "map_set ((k', v') # m) k v =
     (if k' = k then (k', v) # m else (k', v') # map_set m k v)"

definition map_values :: "'v jsmap \<Rightarrow> 'v list" where
  "map_values m = map snd m"

section \<open>Reciprocal Rank Fusion (class SearchEngine)\<close>

text \<open>JavaScript truthiness of a rank: \<^verbatim>\<open>null\<close> and \<^verbatim>\<open>0\<close> are falsy.\<close>

definition truthy_rank :: "nat option \<Rightarrow> bool" where
  "truthy_rank r = (case r of None \<Rightarrow> False | Some n \<Rightarrow> n \<noteq> 0)"

definition rrf_k :: nat where
  "rrf_k = 60"

text \<open>The callback of \<^verbatim>\<open>textResults.forEach((result, index) => ...)\<close>.\<close>

definition text_step :: "fused_entry jsmap \<Rightarrow> nat \<times> search_result \<Rightarrow> fused_entry jsmap" where
  "text_step m ir =
     (let index = fst ir; result = snd ir;
          rrf = 1 / real (rrf_k + index + 1)
      in map_set m (rid result)
           (search_result.extend result
              \<lparr> textRank = Some (index + 1), textScore = rscore result,
                vectorRank = None, vectorScore = 0,
                rrfScore = rrf * 2 \<rparr>))"

text \<open>
  The callback of \<^verbatim>\<open>vectorResults.forEach((result, index) => ...)\<close>; the test
  \<^verbatim>\<open>resultMap.has(result.id)\<close> followed by \<^verbatim>\<open>resultMap.get(result.id)\<close> is the case
  distinction on \<^const>\<open>map_get\<close>.  The snippet test reads \<^verbatim>\<open>existing.vectorScore\<close>
  after it has been assigned.
\<close>

definition vector_step :: "fused_entry jsmap \<Rightarrow> nat \<times> search_result \<Rightarrow> fused_entry jsmap" where
  "vector_step m ir =
     (let index = fst ir; result = snd ir;
          rrf = 1 / real (rrf_k + index + 1)
      in case map_get m (rid result) of
           Some existing \<Rightarrow>
             (let e1 = existing \<lparr> vectorRank := Some (index + 1),
                                  vectorScore := rscore result,
                                  rrfScore := rrfScore existing + rrf \<rparr>;
                  e2 = (if rscore result > vectorScore e1 \<or> rsnippet e1 = []
                        then e1 \<lparr> rsnippet := rsnippet result \<rparr> else e1)
              in map_set m (rid result) e2)
         | None \<Rightarrow>
             map_set m (rid result)
               (search_result.extend result
                  \<lparr> textRank = None, textScore = 0,
                    vectorRank = Some (index + 1), vectorScore = rscore result,
                    rrfScore = rrf \<rparr>))"

definition computeFinalScore :: "fused_entry \<Rightarrow> real" where
  "computeFinalScore result =
     (let finalScore = rrfScore result;
          finalScore = (if truthy_rank (textRank result) \<and> truthy_rank (vectorRank result)
                        then finalScore * 1.2 else finalScore);
          finalScore = (if textRank result = Some 1 \<or> vectorRank result = Some 1
                        then finalScore * 1.1 else finalScore)
      in min 1 (max 0 finalScore))"

definition resultMap :: "search_result list \<Rightarrow> search_result list \<Rightarrow> fused_entry jsmap" where
  "resultMap textResults vectorResults =
     foldl vector_step (foldl text_step [] (enumerate 0 textResults))
       (enumerate 0 vectorResults)"

text \<open>
  \<^verbatim>\<open>Array.prototype.sort\<close> is stable; the comparator \<^verbatim>\<open>b.rrfScore - a.rrfScore\<close> orders by
  descending \<^verbatim>\<open>rrfScore\<close>.  The query argument is not used by the function.
\<close>

definition fuseResults :: "search_result list \<Rightarrow> search_result list \<Rightarrow> string \<Rightarrow> search_result list" where
  "fuseResults textResults vectorResults query =
     map (\<lambda>result. \<lparr> rid = rid result, rpath = rpath result, rtitle = rtitle result,
                      rcollection = rcollection result, rsnippet = rsnippet result,
                      rscore = computeFinalScore result \<rparr>)
       (sort_key (\<lambda>e. - rrfScore e) (map_values (resultMap textResults vectorResults)))"

subsection \<open>The fusion rule as the specification words it\<close>

text \<open>
  The 1-based rank of a document id in a list of ids (\<^const>\<open>None\<close> when absent), the sum
  of the two rank contributions with constant 60 and the keyword list weighted double,
  the two boosts, and the clamp to the unit interval.  These follow the prose of the
  specification and are compared with \<^const>\<open>fuseResults\<close> below.
\<close>

fun rank_of :: "string \<Rightarrow> string list \<Rightarrow> nat option" where
  "rank_of d [] = None"
| "rank_of d (x # xs) = (if x = d then Some 1 else map_option Suc (rank_of d xs))"

definition rrf_sum :: "nat option \<Rightarrow> nat option \<Rightarrow> real" where
  "rrf_sum rt rv =
     (case rt of None \<Rightarrow> 0 | Some r \<Rightarrow> 2 * (1 / (60 + real r))) +
     (case rv of None \<Rightarrow> 0 | Some r \<Rightarrow> 1 * (1 / (60 + real r)))"

definition boosted_sum :: "nat option \<Rightarrow> nat option \<Rightarrow> real" where
  "boosted_sum rt rv =
     rrf_sum rt rv
       * (if rt \<noteq> None \<and> rv \<noteq> None then 1.2 else 1)
       * (if rt = Some 1 \<or> rv = Some 1 then 1.1 else 1)"

definition fused_score :: "nat option \<Rightarrow> nat option \<Rightarrow> real" where
  "fused_score rt rv = min 1 (max 0 (boosted_sum rt rv))"

text \<open>The score that a result list gives to a document id.\<close>

definition score_of :: "string \<Rightarrow> search_result list \<Rightarrow> real option" where
  "score_of d rs = map_option rscore (find (\<lambda>r. rid r = d) rs)"

text \<open>The invariant of the map built by \<^const>\<open>resultMap\<close>, used in the proofs.\<close>

definition entry_ok :: "string list \<Rightarrow> string list \<Rightarrow> string \<Rightarrow> fused_entry \<Rightarrow> bool" where
  "entry_ok tids vids d e \<longleftrightarrow>
     rid e = d \<and> textRank e = rank_of d tids \<and> vectorRank e = rank_of d vids \<and>
     rrfScore e = rrf_sum (rank_of d tids) (rank_of d vids)"

definition map_ok :: "string list \<Rightarrow> string list \<Rightarrow> fused_entry jsmap \<Rightarrow> bool" where
  "map_ok tids vids m \<longleftrightarrow>
     distinct (map fst m) \<and> fst ` set m = set tids \<union> set vids \<and>
     (\<forall>d e. map_of m d = Some e \<longrightarrow> entry_ok tids vids d e)"

section \<open>The database (class DatabaseManager)\<close>

text \<open>
  The three tables of \<^verbatim>\<open>createTables\<close>, each a list of rows in insertion order.
  Timestamps are seconds read from a clock.  The TEXT column \<^verbatim>\<open>embeddings.embedding\<close>
  holds the JSON text of a vector and is identified with the vector it denotes.
  \<^verbatim>\<open>initialize\<close> opens the file, creates the tables if they are missing and prepares
  the statements: it leaves the rows as they are and has no counterpart here.
  The schema declares \<^verbatim>\<open>ON DELETE CASCADE\<close>, but \<^verbatim>\<open>initialize\<close> never switches
  foreign-key enforcement on (SQLite's default is off); the statements below therefore
  act on their own table only, and \<^verbatim>\<open>cleanup\<close> is what removes orphaned rows, as its
  comments say.
\<close>

record collection_row =
  c_name :: string
  c_path :: string
  c_mask :: string
  c_created_at :: nat
  c_updated_at :: nat

record document_row =
  d_id :: string
  d_path :: string
  d_title :: string
  d_content :: string
  d_collection :: string
  d_size :: nat
  d_modified_at :: int
  d_indexed_at :: nat

record embedding_row =
  e_document_id :: string
  e_embedding :: "real list"
  e_created_at :: nat

record database =
  collections :: "collection_row list"
  documents :: "document_row list"
  embeddings :: "embedding_row list"


text \<open>
  \<^verbatim>\<open>SELECT c.*, COUNT(d.id) as file_count ... GROUP BY c.name ORDER BY c.name\<close>:
  every collection with the number of its documents.  Text is compared bytewise.
\<close>

definition getCollections :: "database \<Rightarrow> (collection_row \<times> nat) list" where
  "getCollections db =
     map (\<lambda>c. (c, length (filter (\<lambda>d. d_collection d = c_name c) (documents db))))
       (sort_key c_name (collections db))"





text \<open>
  \<^verbatim>\<open>INSERT OR REPLACE INTO documents\<close>: the primary key is \<^verbatim>\<open>id\<close>, so a row with the
  same id is deleted before the new row is inserted; \<^verbatim>\<open>indexed_at\<close> takes its default,
  the clock.
\<close>

definition addDocument ::
  "database \<Rightarrow> nat \<Rightarrow> string \<Rightarrow> string \<Rightarrow> string \<Rightarrow> string \<Rightarrow> string \<Rightarrow> nat \<Rightarrow> int \<Rightarrow> database" where
  "addDocument db now ident path title content collection sz modifiedAt =
     db \<lparr> documents :=
            filter (\<lambda>d. d_id d \<noteq> ident) (documents db) @
            [\<lparr> d_id = ident, d_path = path, d_title = title, d_content = content,
               d_collection = collection, d_size = sz, d_modified_at = modifiedAt,
               d_indexed_at = now \<rparr>] \<rparr>"

definition removeDocument :: "database \<Rightarrow> string \<Rightarrow> database" where
  "removeDocument db ident =
     db \<lparr> documents := filter (\<lambda>d. d_id d \<noteq> ident) (documents db) \<rparr>"

text \<open>
  \<^verbatim>\<open>SELECT * FROM documents WHERE collection = ? ORDER BY path\<close>.  SQL leaves the order
  of rows with equal paths open; the stable sort keeps them in insertion order.
\<close>

definition getDocumentsByCollection :: "database \<Rightarrow> string \<Rightarrow> document_row list" where
  "getDocumentsByCollection db collection =
     sort_key d_path (filter (\<lambda>d. d_collection d = collection) (documents db))"

text \<open>
  The constraints of the schema: \<^verbatim>\<open>collections.name\<close>, \<^verbatim>\<open>documents.id\<close> and
  \<^verbatim>\<open>embeddings.document_id\<close> are primary keys.
\<close>

definition primary_keys :: "database \<Rightarrow> bool" where
  "primary_keys db \<longleftrightarrow>
     distinct (map c_name (collections db)) \<and>
     distinct (map d_id (documents db)) \<and>
     distinct (map e_document_id (embeddings db))"


section \<open>The collection manager (class CollectionManager)\<close>

subsection \<open>Document ids\<close>

text \<open>
  \<^verbatim>\<open>crypto.createHash('sha256')\<close> is a parameter: a function from the bytes fed to
  \<^verbatim>\<open>update\<close> to the 256-bit digest.  \<^verbatim>\<open>digest('hex')\<close> prints the digest as lower-case
  hexadecimal digits, most significant first.
\<close>

definition hex_digit :: "nat \<Rightarrow> char" where
  "hex_digit n = ''0123456789abcdef'' ! (n mod 16)"

definition digest_hex :: "'a::len word \<Rightarrow> string" where
  "digest_hex w =
     map (\<lambda>i. hex_digit (unat (take_bit 4 (drop_bit (4 * i) w)))) (rev [0..<LENGTH('a) div 4])"

text \<open>
  \<^verbatim>\<open>Number.prototype.toString\<close> on an integer (the result of \<^verbatim>\<open>Math.floor\<close>): decimal
  digits, with a minus sign for a negative number.
\<close>

definition digit_char :: "nat \<Rightarrow> char" where
  "digit_char n = ''0123456789'' ! (n mod 10)"

fun show_nat :: "nat \<Rightarrow> string" where
  "show_nat n = (if n < 10 then [digit_char n] else show_nat (n div 10) @ [digit_char (n mod 10)])"

declare show_nat.simps [simp del]

definition number_toString :: "int \<Rightarrow> string" where
  "number_toString i = (if i < 0 then CHR ''-'' # show_nat (nat (- i)) else show_nat (nat i))"

text \<open>
  \<^verbatim>\<open>hash.update(filePath); hash.update(modifiedTime.toString())\<close> hashes the
  concatenation of the two strings; the id is the first eight characters of the hex digest.
\<close>

definition generateDocumentId :: "(string \<Rightarrow> 256 word) \<Rightarrow> string \<Rightarrow> int \<Rightarrow> string" where
  "generateDocumentId sha filePath modifiedTime =
     take 8 (digest_hex (sha (filePath @ number_toString modifiedTime)))"

text \<open>The 32 leading bits of a digest, which the eight characters print.\<close>

definition digest_top32 :: "256 word \<Rightarrow> 32 word" where
  "digest_top32 w = ucast (drop_bit 224 w)"

subsection \<open>Indexing a collection\<close>

text \<open>
  What \<^verbatim>\<open>indexCollection\<close> reads from outside: the files that \<^verbatim>\<open>glob\<close> matches under
  a root with a mask (with the ignore list of the call), \<^verbatim>\<open>fs.statSync\<close> and
  \<^verbatim>\<open>fs.readFileSync\<close>, which throw (\<^const>\<open>None\<close>) or return, the hash function and the
  clock.  \<^verbatim>\<open>parseMarkdownFile\<close> is carried as a function of the content and the path
  whose result is only stored; it may throw as well.
\<close>

record file_stat =
  mtimeMs :: real
  st_size :: nat

record indexer_env =
  glob :: "string \<Rightarrow> string \<Rightarrow> string list"
  statSync :: "string \<Rightarrow> file_stat option"
  readFileSync :: "string \<Rightarrow> string option"
  parseMarkdownFile :: "string \<Rightarrow> string \<Rightarrow> (string \<times> string) option"
  sha256 :: "string \<Rightarrow> 256 word"
  clock :: nat

record index_counts =
  indexed :: nat
  skipped :: nat
  removed :: nat

text \<open>A JavaScript \<^verbatim>\<open>Set\<close> of strings: insertion order, no duplicates.\<close>

definition set_add :: "string list \<Rightarrow> string \<Rightarrow> string list" where
  "set_add s x = (if x \<in> set s then s else s @ [x])"

definition new_Set :: "string list \<Rightarrow> string list" where
  "new_Set xs = foldl set_add [] xs"

text \<open>The variables that the loop over the files updates.\<close>

record index_state =
  ix_db :: database
  processedPaths :: "string list"
  ix_indexed :: nat
  ix_skipped :: nat

text \<open>
  The body of \<^verbatim>\<open>for (const filePath of files)\<close>: everything in it is inside
  \<^verbatim>\<open>try\<close>, and the \<^verbatim>\<open>catch\<close> logs and goes on with the next file, keeping what was
  assigned before the exception.
\<close>

definition index_file ::
  "indexer_env \<Rightarrow> collection_row \<Rightarrow> document_row list \<Rightarrow> index_state \<Rightarrow> string \<Rightarrow> index_state" where
  "index_file env collection existingDocs st filePath =
     (let st1 = st \<lparr> processedPaths := set_add (processedPaths st) filePath \<rparr>
      in case statSync env filePath of
           None \<Rightarrow> st1
         | Some stat \<Rightarrow>
             (let modifiedTime = \<lfloor>mtimeMs stat\<rfloor>;
                  existingDoc = find (\<lambda>doc. d_path doc = filePath) existingDocs
              in if (case existingDoc of None \<Rightarrow> False
                     | Some doc \<Rightarrow> d_modified_at doc \<ge> modifiedTime)
                 then st1 \<lparr> ix_skipped := ix_skipped st1 + 1 \<rparr>
                 else
                   (case readFileSync env filePath of
                      None \<Rightarrow> st1
                    | Some content \<Rightarrow>
                        (case parseMarkdownFile env content filePath of
                           None \<Rightarrow> st1
                         | Some (title, cleanContent) \<Rightarrow>
                             (let docId = generateDocumentId (sha256 env) filePath modifiedTime
                              in st1 \<lparr> ix_db := addDocument (ix_db st1) (clock env) docId filePath
                                                  title cleanContent (c_name collection)
                                                  (st_size stat) modifiedTime,
                                       ix_indexed := ix_indexed st1 + 1 \<rparr>)))))"

text \<open>The body of the loop of \<^verbatim>\<open>removeTransaction\<close>.\<close>

definition remove_path :: "document_row list \<Rightarrow> database \<Rightarrow> string \<Rightarrow> database" where
  "remove_path existingDocs db filePath =
     (case find (\<lambda>d. d_path d = filePath) existingDocs of
        None \<Rightarrow> db
      | Some doc \<Rightarrow> removeDocument db (d_id doc))"

definition indexCollection ::
  "indexer_env \<Rightarrow> database \<Rightarrow> string \<Rightarrow> error + (database \<times> index_counts)" where
  "indexCollection env db collectionName =
     (case find (\<lambda>c. c_name c = collectionName) (map fst (getCollections db)) of
        None \<Rightarrow> Inl (CollectionNotFound collectionName)
      | Some collection \<Rightarrow>
          (let files = glob env (c_path collection) (c_mask collection);
               existingDocs = getDocumentsByCollection db (c_name collection);
               existingPaths = new_Set (map d_path existingDocs);
               st = foldl (index_file env collection existingDocs)
                      \<lparr> ix_db = db, processedPaths = [], ix_indexed = 0, ix_skipped = 0 \<rparr> files;
               removedPaths = filter (\<lambda>p. p \<notin> set (processedPaths st)) existingPaths;
               db' = (if length removedPaths > 0
                      then foldl (remove_path existingDocs) (ix_db st) removedPaths
                      else ix_db st)
           in Inr (db', \<lparr> indexed = ix_indexed st, skipped = ix_skipped st,
                           removed = length removedPaths \<rparr>)))"

subsection \<open>Removing a collection\<close>


subsection \<open>Reading a decimal numeral back\<close>

text \<open>
  The value of a string of decimal digits; it is the inverse of \<^const>\<open>show_nat\<close> and is
  used to show that different numbers print differently.
\<close>

definition read_digits :: "string \<Rightarrow> nat" where
  "read_digits s = foldl (\<lambda>n c. 10 * n + (of_char c - 48)) 0 s"

subsection \<open>What happens to one file\<close>

text \<open>
  The fate of a matched file, told from the file alone and the documents stored before
  the pass: it is skipped, it is indexed, or one of its steps throws.
\<close>

datatype outcome = Indexed | Skipped | Failed

definition file_outcome :: "indexer_env \<Rightarrow> document_row list \<Rightarrow> string \<Rightarrow> outcome" where
  "file_outcome env existingDocs filePath =
     (case statSync env filePath of
        None \<Rightarrow> Failed
      | Some stat \<Rightarrow>
          (case find (\<lambda>doc. d_path doc = filePath) existingDocs of
             Some doc \<Rightarrow>
               if d_modified_at doc \<ge> \<lfloor>mtimeMs stat\<rfloor> then Skipped
               else (case readFileSync env filePath of
                       None \<Rightarrow> Failed
                     | Some content \<Rightarrow>
                         (case parseMarkdownFile env content filePath of
                            None \<Rightarrow> Failed | Some parsed \<Rightarrow> Indexed))
           | None \<Rightarrow>
               (case readFileSync env filePath of
                  None \<Rightarrow> Failed
                | Some content \<Rightarrow>
                    (case parseMarkdownFile env content filePath of
                       None \<Rightarrow> Failed | Some parsed \<Rightarrow> Indexed))))"

subsection \<open>What a pass stores\<close>

text \<open>
  The row that the loop hands to \<^verbatim>\<open>addDocument\<close> for a file whose steps all succeed, told
  from the file alone; and the store after that statement.
\<close>

definition indexed_document :: "indexer_env \<Rightarrow> collection_row \<Rightarrow> string \<Rightarrow> document_row option" where
  "indexed_document env collection filePath =
     (case statSync env filePath of
        None \<Rightarrow> None
      | Some stat \<Rightarrow>
          (case readFileSync env filePath of
             None \<Rightarrow> None
           | Some content \<Rightarrow>
               (case parseMarkdownFile env content filePath of
                  None \<Rightarrow> None
                | Some (title, cleanContent) \<Rightarrow>
                    Some \<lparr> d_id = generateDocumentId (sha256 env) filePath \<lfloor>mtimeMs stat\<rfloor>,
                           d_path = filePath, d_title = title, d_content = cleanContent,
                           d_collection = c_name collection, d_size = st_size stat,
                           d_modified_at = \<lfloor>mtimeMs stat\<rfloor>, d_indexed_at = clock env \<rparr>)))"

definition store_file :: "indexer_env \<Rightarrow> collection_row \<Rightarrow> database \<Rightarrow> string \<Rightarrow> database" where
  "store_file env collection db filePath =
     (case indexed_document env collection filePath of
        None \<Rightarrow> db
      | Some d \<Rightarrow>
          addDocument db (d_indexed_at d) (d_id d) (d_path d) (d_title d) (d_content d)
            (d_collection d) (d_size d) (d_modified_at d))"

text \<open>
  The id that a file has in a pass, and passes without a clash of ids: two matched files
  have different ids, and no document stored under another path has the id of a matched
  file.  Ids are 32 bits of a hash, so a clash is possible and rare.
\<close>

definition file_id :: "indexer_env \<Rightarrow> string \<Rightarrow> string option" where
  "file_id env filePath =
     (case statSync env filePath of
        None \<Rightarrow> None
      | Some stat \<Rightarrow> Some (generateDocumentId (sha256 env) filePath \<lfloor>mtimeMs stat\<rfloor>))"

definition no_id_clash :: "indexer_env \<Rightarrow> document_row list \<Rightarrow> string list \<Rightarrow> bool" where
  "no_id_clash env existingDocs files \<longleftrightarrow>
     (\<forall>f \<in> set files. \<forall>g \<in> set files.
        file_id env f = file_id env g \<longrightarrow> file_id env f = None \<or> f = g) \<and>
     (\<forall>x \<in> set existingDocs. \<forall>f \<in> set files.
        file_id env f = Some (d_id x) \<longrightarrow> d_path x = f)"

subsection \<open>SHA-256\<close>

text \<open>
  The hash function behind \<^verbatim>\<open>crypto.createHash('sha256')\<close>, after FIPS 180-4: the message
  is padded with the byte \<open>0x80\<close>, zeros and its length in bits, and each block of sixteen
  big-endian words goes through the 64 rounds of the compression function.  It is used
  where an id is computed for a concrete path; the general statements about ids hold for
  any function from messages to digests.
\<close>

definition rotr :: "nat \<Rightarrow> 32 word \<Rightarrow> 32 word" where
  "rotr n x = (drop_bit n x) OR (push_bit (32 - n) x)"

definition ssig0 :: "32 word \<Rightarrow> 32 word" where
  "ssig0 x = rotr 7 x XOR rotr 18 x XOR drop_bit 3 x"
definition ssig1 :: "32 word \<Rightarrow> 32 word" where
  "ssig1 x = rotr 17 x XOR rotr 19 x XOR drop_bit 10 x"
definition bsig0 :: "32 word \<Rightarrow> 32 word" where
  "bsig0 x = rotr 2 x XOR rotr 13 x XOR rotr 22 x"
definition bsig1 :: "32 word \<Rightarrow> 32 word" where
  "bsig1 x = rotr 6 x XOR rotr 11 x XOR rotr 25 x"
definition ch :: "32 word \<Rightarrow> 32 word \<Rightarrow> 32 word \<Rightarrow> 32 word" where
  "ch e f g = (e AND f) XOR (NOT e AND g)"
definition maj :: "32 word \<Rightarrow> 32 word \<Rightarrow> 32 word \<Rightarrow> 32 word" where
  "maj a b c = (a AND b) XOR (a AND c) XOR (b AND c)"

definition K :: "32 word list" where
  "K = concat
     [[0x428a2f98, 0x71374491, 0xb5c0fbcf, 0xe9b5dba5, 0x3956c25b, 0x59f111f1, 0x923f82a4, 0xab1c5ed5],
      [0xd807aa98, 0x12835b01, 0x243185be, 0x550c7dc3, 0x72be5d74, 0x80deb1fe, 0x9bdc06a7, 0xc19bf174],
      [0xe49b69c1, 0xefbe4786, 0x0fc19dc6, 0x240ca1cc, 0x2de92c6f, 0x4a7484aa, 0x5cb0a9dc, 0x76f988da],
      [0x983e5152, 0xa831c66d, 0xb00327c8, 0xbf597fc7, 0xc6e00bf3, 0xd5a79147, 0x06ca6351, 0x14292967],
      [0x27b70a85, 0x2e1b2138, 0x4d2c6dfc, 0x53380d13, 0x650a7354, 0x766a0abb, 0x81c2c92e, 0x92722c85],
      [0xa2bfe8a1, 0xa81a664b, 0xc24b8b70, 0xc76c51a3, 0xd192e819, 0xd6990624, 0xf40e3585, 0x106aa070],
      [0x19a4c116, 0x1e376c08, 0x2748774c, 0x34b0bcb5, 0x391c0cb3, 0x4ed8aa4a, 0x5b9cca4f, 0x682e6ff3],
      [0x748f82ee, 0x78a5636f, 0x84c87814, 0x8cc70208, 0x90befffa, 0xa4506ceb, 0xbef9a3f7, 0xc67178f2]]"

definition H0 :: "32 word list" where
  "H0 = [0x6a09e667, 0xbb67ae85, 0x3c6ef372, 0xa54ff53a, 0x510e527f, 0x9b05688c, 0x1f83d9ab, 0x5be0cd19]"

text \<open>
  The message schedule, most recent word first: \<open>extend n\<close> adds the next \<open>n\<close> words to
  the sixteen words of a block.
\<close>

fun extend :: "nat \<Rightarrow> 32 word list \<Rightarrow> 32 word list" where
  "extend 0 ws = ws"
| "extend (Suc n) ws = extend n ((ssig1 (ws ! 1) + ws ! 6 + ssig0 (ws ! 14) + ws ! 15) # ws)"

text \<open>The 64 rounds on the working variables \<open>a\<close> to \<open>h\<close>.\<close>

fun rounds :: "32 word list \<Rightarrow> 32 word list \<Rightarrow> 32 word list \<Rightarrow> 32 word list" where
  "rounds [a,b,c,d,e,f,g,h] (k # ks) (w # ws) =
     (let t1 = h + bsig1 e + ch e f g + k + w; t2 = bsig0 a + maj a b c
      in rounds [t1 + t2, a, b, c, d + t1, e, f, g] ks ws)"
| "rounds s _ _ = s"

definition compress :: "32 word list \<Rightarrow> 32 word list \<Rightarrow> 32 word list" where
  "compress hs block = map2 (+) hs (rounds hs K (rev (extend 48 (rev block))))"

text \<open>Bytes to big-endian words, and the padding of a message of bytes.\<close>

fun be_words :: "8 word list \<Rightarrow> 32 word list" where
  "be_words (a # b # c # d # r) = (push_bit 24 (ucast a) OR push_bit 16 (ucast b) OR push_bit 8 (ucast c) OR ucast d) # be_words r"
| "be_words _ = []"

definition pad :: "8 word list \<Rightarrow> 8 word list" where
  "pad m = m @ [0x80] @ replicate ((119 - length m mod 64) mod 64) 0 @
     map (\<lambda>i. ucast (drop_bit (8 * i) (word_of_nat (8 * length m) :: 64 word))) (rev [0..<8])"

fun blocks :: "nat \<Rightarrow> 32 word list \<Rightarrow> 32 word list \<Rightarrow> 32 word list" where
  "blocks 0 hs ws = hs"
| "blocks (Suc n) hs ws = blocks n (compress hs (take 16 ws)) (drop 16 ws)"

definition sha256_digest :: "string \<Rightarrow> 256 word" where
  "sha256_digest s = (let p = pad (map (\<lambda>c. word_of_nat (of_char c)) s);
                   hs = blocks (length p div 64) H0 (be_words p)
               in foldl (\<lambda>acc h. push_bit 32 acc OR ucast h) 0 hs)"

section \<open>The embedding engine (class EmbeddingEngine)\<close>

text \<open>
  What the engine uses of the packages \<^verbatim>\<open>natural\<close> and \<^verbatim>\<open>crypto\<close> is a parameter: the
  Porter stemmer, the TF-IDF weight of a term in the document at an index of the
  \<^verbatim>\<open>documents\<close> array of a \<^verbatim>\<open>TfIdf\<close> object, MD5, and the value of the expression
  \<^verbatim>\<open>natural.WordTokenizer.tokenize\<close>.  That expression reads the property \<^verbatim>\<open>tokenize\<close> of
  the class \<^verbatim>\<open>WordTokenizer\<close> itself: \<^verbatim>\<open>Some\<close> of a function when the class has such a
  property, \<^verbatim>\<open>None\<close> when the value is \<^verbatim>\<open>undefined\<close>.  In the package, \<^verbatim>\<open>tokenize\<close> is
  a method of the instances of the class (\<^verbatim>\<open>new natural.WordTokenizer().tokenize\<close>);
  the class has no property of that name, so the value is \<^verbatim>\<open>None\<close>, and calling it
  throws a \<^verbatim>\<open>TypeError\<close>.
  A document of the \<^verbatim>\<open>TfIdf\<close> object is kept as the token list it was added from.
  Strings are sequences of 8-bit characters, with the case mapping and the character
  classes of ASCII.
\<close>

record natural_lib =
  WordTokenizer_tokenize :: "(string \<Rightarrow> string list) option"
  stem :: "string \<Rightarrow> string"
  tfidf :: "string list list \<Rightarrow> string \<Rightarrow> nat \<Rightarrow> real"
  md5 :: "string \<Rightarrow> 128 word"

text \<open>
  The package as it is published: the class \<^verbatim>\<open>WordTokenizer\<close> has no property
  \<^verbatim>\<open>tokenize\<close> of its own.
\<close>

definition as_published :: "natural_lib \<Rightarrow> bool" where
  "as_published lib \<longleftrightarrow> WordTokenizer_tokenize lib = None"

record embedding_engine =
  tfidf_documents :: "string list list"
  vocabulary :: "nat jsmap"
  initialized :: bool

definition dimensions :: nat where
  "dimensions = 384"

definition new_EmbeddingEngine :: embedding_engine where
  "new_EmbeddingEngine = \<lparr> tfidf_documents = [], vocabulary = [], initialized = False \<rparr>"

definition initialize :: "embedding_engine \<Rightarrow> embedding_engine" where
  "initialize st = (if initialized st then st else st \<lparr> vocabulary := [], initialized := True \<rparr>)"

subsection \<open>Text preprocessing\<close>

definition is_upper :: "char \<Rightarrow> bool" where
  "is_upper c \<longleftrightarrow> CHR ''A'' \<le> c \<and> c \<le> CHR ''Z''"

definition is_digit :: "char \<Rightarrow> bool" where
  "is_digit c \<longleftrightarrow> CHR ''0'' \<le> c \<and> c \<le> CHR ''9''"

definition is_word_char :: "char \<Rightarrow> bool" where
  "is_word_char c \<longleftrightarrow>
     is_upper c \<or> (CHR ''a'' \<le> c \<and> c \<le> CHR ''z'') \<or> is_digit c \<or> c = CHR ''_''"

definition is_space :: "char \<Rightarrow> bool" where
  "is_space c \<longleftrightarrow> c \<in> set [CHR '' '', CHR 0x09, CHR 0x0A, CHR 0x0B, CHR 0x0C, CHR 0x0D]"

definition toLowerCase :: "string \<Rightarrow> string" where
  "toLowerCase s = map (\<lambda>c. if is_upper c then char_of (of_char c + (32::nat)) else c) s"

text \<open>\<^verbatim>\<open>replace(/\\s+/g, ' ')\<close>: every maximal run of white space becomes one space.\<close>

function collapse_spaces :: "string \<Rightarrow> string" where
  "collapse_spaces [] = []"
| "collapse_spaces (c # cs) =
     (if is_space c then CHR '' '' # collapse_spaces (dropWhile is_space cs)
      else c # collapse_spaces cs)"
  by pat_completeness auto
termination
  by (relation "measure length") (auto simp: length_dropWhile_le less_Suc_eq_le)

definition trim :: "string \<Rightarrow> string" where
  "trim s = rev (dropWhile is_space (rev (dropWhile is_space s)))"

definition preprocessText :: "string \<Rightarrow> string" where
  "preprocessText text =
     trim (collapse_spaces
       (map (\<lambda>c. if is_word_char c \<or> is_space c then c else CHR '' '') (toLowerCase text)))"

subsection \<open>Features\<close>

fun join_space :: "string list \<Rightarrow> string" where
  "join_space [] = []"
| "join_space [t] = t"
| "join_space (t # ts) = t @ CHR '' '' # join_space ts"

text \<open>\<^verbatim>\<open>for (let i = 0; i <= tokens.length - n; i++)\<close> with \<^verbatim>\<open>tokens.slice(i, i + n)\<close>.\<close>

definition generateNGrams :: "string list \<Rightarrow> nat \<Rightarrow> string list" where
  "generateNGrams tokens n =
     map (\<lambda>i. join_space (take n (drop i tokens))) [0..<(length tokens + 1) - n]"

text \<open>\<^verbatim>\<open>parseInt(hash.substring(0, 8), 16)\<close>: the 32 leading bits of the digest.\<close>

definition hashFeature :: "natural_lib \<Rightarrow> string \<Rightarrow> nat" where
  "hashFeature lib feature = unat (drop_bit 96 (md5 lib feature))"

text \<open>\<^verbatim>\<open>m.set(k, (m.get(k) || 0) + 1)\<close>.\<close>

definition count_up :: "nat jsmap \<Rightarrow> string \<Rightarrow> nat jsmap" where
  "count_up m k = map_set m k ((case map_get m k of None \<Rightarrow> 0 | Some n \<Rightarrow> n) + 1)"

definition generateCharFeatures :: "string \<Rightarrow> real list" where
  "generateCharFeatures text =
     (let chars = map (\<lambda>c. [c]) text;
          charFreq = foldl count_up [] chars;
          totalChars = length chars;
          sortedChars = sort_key (\<lambda>entry. - int (snd entry)) charFreq
      in map (\<lambda>entry. real (snd entry) / real totalChars) (take 32 sortedChars) @
         [real (length text) / 1000,
          real (length (filter is_upper text)) / real totalChars,
          real (length (filter is_digit text)) / real totalChars,
          real (length (filter is_space text)) / real totalChars])"

definition endsWith :: "string \<Rightarrow> string \<Rightarrow> bool" where
  "endsWith s suf \<longleftrightarrow> length suf \<le> length s \<and> drop (length s - length suf) s = suf"

record pos_count =
  noun :: nat
  verb :: nat
  adj :: nat
  other :: nat

definition pos_step :: "pos_count \<Rightarrow> string \<Rightarrow> pos_count" where
  "pos_step posCount token =
     (if endsWith token ''ing'' \<or> endsWith token ''ed'' \<or> endsWith token ''s''
      then posCount \<lparr> verb := verb posCount + 1 \<rparr>
      else if endsWith token ''ly'' \<or> endsWith token ''al'' \<or> endsWith token ''ful''
      then posCount \<lparr> adj := adj posCount + 1 \<rparr>
      else if length token > 4 \<and> \<not> endsWith token ''ly''
      then posCount \<lparr> noun := noun posCount + 1 \<rparr>
      else posCount \<lparr> other := other posCount + 1 \<rparr>)"

definition mean :: "real list \<Rightarrow> real" where
  "mean arr = foldl (\<lambda>sum val. sum + val) 0 arr / real (length arr)"

definition stddev :: "real list \<Rightarrow> real" where
  "stddev arr =
     (let avg = mean arr;
          variance = foldl (\<lambda>sum val. sum + (val - avg) ^ 2) 0 arr / real (length arr)
      in sqrt variance)"

definition generateSemanticFeatures :: "string list \<Rightarrow> real list" where
  "generateSemanticFeatures tokens =
     (let posCount = foldl pos_step \<lparr> noun = 0, verb = 0, adj = 0, other = 0 \<rparr> tokens;
          totalTokens = length tokens;
          lengths = map (\<lambda>t. real (length t)) tokens;
          longWords = length (filter (\<lambda>t. length t > 6) tokens);
          uniqueWords = length (remdups tokens)
      in [real (noun posCount) / real totalTokens,
          real (verb posCount) / real totalTokens,
          real (adj posCount) / real totalTokens,
          real (other posCount) / real totalTokens,
          mean lengths / 10,
          stddev lengths / 10,
          real longWords / real totalTokens,
          real uniqueWords / real totalTokens])"

text \<open>
  \<^verbatim>\<open>for (let i = 0; i < Math.min(64, features.length); i++) vector[offset + i] = features[i]\<close>.
\<close>

definition write_block :: "nat \<Rightarrow> real list \<Rightarrow> real list \<Rightarrow> real list" where
  "write_block offset features vector =
     foldl (\<lambda>v i. v[offset + i := features ! i]) vector [0..<min 64 (length features)]"

text \<open>
  The four blocks of \<^verbatim>\<open>createFeatureVector\<close>.  The first loop stops at the 128th entry
  of \<^verbatim>\<open>termFreq\<close>; in the second loop \<^verbatim>\<open>featureIndex\<close> stays at 128, so every bigram
  is counted.
\<close>

definition createFeatureVector ::
  "natural_lib \<Rightarrow> string list list \<Rightarrow> string list \<Rightarrow> nat \<Rightarrow> real list" where
  "createFeatureVector lib docs tokens docIndex =
     (let vector = replicate dimensions 0;
          termFreq = foldl (\<lambda>m token. count_up m (stem lib token)) [] tokens;
          vector = foldl (\<lambda>v entry. v[fst entry := tfidf lib docs (fst (snd entry)) docIndex])
                     vector (enumerate 0 (take 128 termFreq));
          bigrams = generateNGrams tokens 2;
          vector = foldl (\<lambda>v bigram.
                       (let hash = hashFeature lib bigram mod 128
                        in v[128 + hash := v ! (128 + hash) + 1 / real (length bigrams)]))
                     vector bigrams;
          vector = write_block 256 (generateCharFeatures (join_space tokens)) vector;
          vector = write_block 320 (generateSemanticFeatures tokens) vector
      in vector)"

definition normalizeVector :: "real list \<Rightarrow> real list" where
  "normalizeVector vector =
     (let magnitude = sqrt (foldl (\<lambda>sum val. sum + val * val) 0 vector)
      in if magnitude = 0 then vector else map (\<lambda>val. val / magnitude) vector)"

text \<open>\<^verbatim>\<open>array.splice(start, 1)\<close>: the array without the element at \<^verbatim>\<open>start\<close>.\<close>

definition splice1 :: "'a list \<Rightarrow> nat \<Rightarrow> 'a list" where
  "splice1 xs start = take start xs @ drop (start + 1) xs"

text \<open>
  \<^verbatim>\<open>embed\<close> returns the vector or throws; the engine it leaves behind is returned with
  the outcome.  The call \<^verbatim>\<open>natural.WordTokenizer.tokenize(cleanText)\<close> comes after
  \<^verbatim>\<open>initialize\<close> and \<^verbatim>\<open>preprocessText\<close> and before everything else; when the property is
  \<^verbatim>\<open>undefined\<close> the call throws and the rest of the body is not run.
\<close>

definition embed ::
  "natural_lib \<Rightarrow> embedding_engine \<Rightarrow> string \<Rightarrow> (error + real list) \<times> embedding_engine" where
  "embed lib st text =
     (let st = (if \<not> initialized st then initialize st else st);
          cleanText = preprocessText text
      in case WordTokenizer_tokenize lib of
           None \<Rightarrow> (Inl (TypeError ''natural.WordTokenizer.tokenize is not a function''), st)
         | Some tokenize \<Rightarrow>
             (let tokens = tokenize cleanText
              in if tokens = [] then (Inr (replicate dimensions 0), st)
                 else
                   (let st = st \<lparr> tfidf_documents := tfidf_documents st @ [tokens] \<rparr>;
                        docIndex = length (tfidf_documents st) - 1;
                        vector = createFeatureVector lib (tfidf_documents st) tokens docIndex;
                        st = st \<lparr> tfidf_documents := splice1 (tfidf_documents st) docIndex \<rparr>
                    in (Inr (normalizeVector vector), st))))"

text \<open>
  \<^verbatim>\<open>embedBatch\<close> embeds the texts one after the other; an exception of \<^verbatim>\<open>embed\<close> ends
  the loop.
\<close>

fun embedBatch ::
  "natural_lib \<Rightarrow> embedding_engine \<Rightarrow> string list \<Rightarrow> (error + real list list) \<times> embedding_engine" where
  "embedBatch lib st [] = (Inr [], st)"
| "embedBatch lib st (text # texts) =
     (case embed lib st text of
        (Inl e, st1) \<Rightarrow> (Inl e, st1)
      | (Inr v, st1) \<Rightarrow>
          (case embedBatch lib st1 texts of
             (Inl e, st2) \<Rightarrow> (Inl e, st2)
           | (Inr vs, st2) \<Rightarrow> (Inr (v # vs), st2)))"

text \<open>The Euclidean length of a vector.\<close>

definition l2_norm :: "real list \<Rightarrow> real" where
  "l2_norm v = sqrt (\<Sum>x\<leftarrow>v. x\<^sup>2)"

section \<open>The search engine (class SearchEngine)\<close>

text \<open>
  The full-text index \<^verbatim>\<open>documents_fts\<close> has one row for each row of \<^verbatim>\<open>documents\<close>, put
  there under the \<^verbatim>\<open>rowid\<close> of that row by the triggers of the schema.  What SQLite
  computes is a parameter:
  whether \<^verbatim>\<open>MATCH\<close> accepts the query text at all (it throws on a text that is no FTS5
  query, such as \<^verbatim>\<open>c++\<close>);
  whether the index row of a document matches the query, the value of
  \<^verbatim>\<open>bm25(documents_fts)\<close> for it and what \<^verbatim>\<open>highlight(...)\<close> returns for it;
  the \<^verbatim>\<open>rowid\<close> that the row of a document has in \<^verbatim>\<open>documents\<close>, an integer that is
  no column of the table;
  and the integer that SQLite reads in a text when it compares the text with an integer:
  \<^verbatim>\<open>Some n\<close> for a text that is a numeral of the integer \<^verbatim>\<open>n\<close>, \<^verbatim>\<open>None\<close> for any other
  text, which is then different from every integer.
  Of the two snippet helpers of the class, \<^verbatim>\<open>cleanSnippet\<close> is carried as a function;
  \<^verbatim>\<open>extractSnippet\<close> builds a \<^verbatim>\<open>RegExp\<close> from each word of the query and throws the
  \<^verbatim>\<open>SyntaxError\<close> of \<^verbatim>\<open>new RegExp\<close> when a word is no pattern, so it returns an exception
  or the snippet.
\<close>

record fts_engine =
  fts_accepts :: "string \<Rightarrow> bool"
  fts_match :: "string \<Rightarrow> document_row \<Rightarrow> bool"
  bm25 :: "string \<Rightarrow> document_row \<Rightarrow> real"
  highlight :: "string \<Rightarrow> document_row \<Rightarrow> string"
  rowid :: "document_row \<Rightarrow> int"
  text_as_integer :: "string \<Rightarrow> int option"
  cleanSnippet :: "string \<Rightarrow> string"
  extractSnippet :: "string \<Rightarrow> string \<Rightarrow> error + string"

text \<open>
  The options \<^verbatim>\<open>{limit = 5, collection = null, minScore = 0}\<close>.  \<^verbatim>\<open>if (collection)\<close> is
  false for \<^verbatim>\<open>null\<close> and for the empty string.
\<close>

record search_options =
  opt_limit :: nat
  opt_collection :: "string option"
  opt_minScore :: real

definition default_options :: search_options where
  "default_options = \<lparr> opt_limit = 5, opt_collection = None, opt_minScore = 0 \<rparr>"

definition collection_filter :: "string option \<Rightarrow> document_row \<Rightarrow> bool" where
  "collection_filter collection d =
     (case collection of None \<Rightarrow> True
      | Some c \<Rightarrow> if c = [] then True else d_collection d = c)"

text \<open>
  \<^verbatim>\<open>FROM documents_fts fts JOIN documents d ON d.id = fts.rowid
  WHERE documents_fts MATCH ? [AND d.collection = ?] AND bm25(documents_fts) >= ?
  ORDER BY score DESC LIMIT ?\<close> with the parameters \<^verbatim>\<open>query\<close>, \<^verbatim>\<open>collection\<close>,
  \<^verbatim>\<open>-minScore\<close> and \<^verbatim>\<open>limit\<close>; \<^verbatim>\<open>score\<close> is the alias of \<^verbatim>\<open>bm25(documents_fts)\<close>.
  A row of the join is a pair of a row \<^verbatim>\<open>d\<close> of \<^verbatim>\<open>documents\<close> and the index row
  \<^verbatim>\<open>fts\<close> of a matching document such that the text \<^verbatim>\<open>d.id\<close> equals the integer
  \<^verbatim>\<open>fts.rowid\<close>.  Id, path, title and collection of a result are those of \<^verbatim>\<open>d\<close>; snippet
  and score are those of the index row.  Rows of equal score stay in the order of the join.
\<close>

definition textSearch ::
  "fts_engine \<Rightarrow> database \<Rightarrow> string \<Rightarrow> search_options \<Rightarrow> error + search_result list" where
  "textSearch fts db query options =
     (if \<not> fts_accepts fts query then Inl (SqliteError ''fts5: syntax error'')
      else
        (let rows = concat (map (\<lambda>f. map (\<lambda>d. (d, f))
                                     (filter (\<lambda>d. text_as_integer fts (d_id d) = Some (rowid fts f))
                                        (documents db)))
                             (filter (\<lambda>f. fts_match fts query f) (documents db)));
             rows = filter (\<lambda>row. collection_filter (opt_collection options) (fst row)) rows;
             rows = filter (\<lambda>row. bm25 fts query (snd row) \<ge> - opt_minScore options) rows;
             rows = take (opt_limit options) (sort_key (\<lambda>row. - bm25 fts query (snd row)) rows)
         in Inr (map (\<lambda>row. \<lparr> rid = d_id (fst row), rpath = d_path (fst row),
                                 rtitle = d_title (fst row), rcollection = d_collection (fst row),
                                 rsnippet = cleanSnippet fts (highlight fts query (snd row)),
                                 rscore = max 0 (min 1 ((- bm25 fts query (snd row)) / 10)) \<rparr>)
                   rows)))"

text \<open>\<^verbatim>\<open>cosineSimilarity\<close> and the SQL function that \<^verbatim>\<open>registerVectorFunctions\<close> puts on top of it.\<close>

definition cosineSimilarity :: "real list \<Rightarrow> real list \<Rightarrow> real" where
  "cosineSimilarity a b =
     (if length a \<noteq> length b then 0
      else
        (let dotProduct = (\<Sum>i\<leftarrow>[0..<length a]. a ! i * b ! i);
             normA = (\<Sum>i\<leftarrow>[0..<length a]. a ! i * a ! i);
             normB = (\<Sum>i\<leftarrow>[0..<length a]. b ! i * b ! i)
         in if normA = 0 \<or> normB = 0 then 0
            else dotProduct / (sqrt normA * sqrt normB)))"

definition vector_distance_cosine :: "real list \<Rightarrow> real list \<Rightarrow> real" where
  "vector_distance_cosine a b = 1 - cosineSimilarity a b"

text \<open>
  \<^verbatim>\<open>array.map(callback)\<close> for a callback that can throw: the first exception ends the
  call.
\<close>

fun array_map :: "('a \<Rightarrow> error + 'b) \<Rightarrow> 'a list \<Rightarrow> error + 'b list" where
  "array_map f [] = Inr []"
| "array_map f (x # xs) =
     (case f x of
        Inl e \<Rightarrow> Inl e
      | Inr y \<Rightarrow> (case array_map f xs of Inl e \<Rightarrow> Inl e | Inr ys \<Rightarrow> Inr (y # ys)))"

text \<open>
  \<^verbatim>\<open>vectorSearch\<close> awaits \<^verbatim>\<open>embed\<close> first, and an exception of \<^verbatim>\<open>embed\<close> is its own.
  Then \<^verbatim>\<open>FROM embeddings e JOIN documents d ON d.id = e.document_id WHERE score >= ?
  [AND d.collection = ?] ORDER BY score DESC LIMIT ?\<close>, both columns of the join being
  text, and \<^verbatim>\<open>extractSnippet\<close> for every row.
\<close>

definition vectorSearch ::
  "fts_engine \<Rightarrow> natural_lib \<Rightarrow> embedding_engine \<Rightarrow> database \<Rightarrow> string \<Rightarrow> search_options
     \<Rightarrow> (error + search_result list) \<times> embedding_engine" where
  "vectorSearch fts lib st db query options =
     (case embed lib st query of
        (Inl e, st') \<Rightarrow> (Inl e, st')
      | (Inr queryVector, st') \<Rightarrow>
          (let score = (\<lambda>e. 1 / (1 + vector_distance_cosine (e_embedding e) queryVector));
               rows = concat (map (\<lambda>e. map (\<lambda>d. (d, score e))
                                        (filter (\<lambda>d. d_id d = e_document_id e) (documents db)))
                                (embeddings db));
               rows = filter (\<lambda>row. snd row \<ge> opt_minScore options) rows;
               rows = filter (\<lambda>row. collection_filter (opt_collection options) (fst row)) rows;
               rows = take (opt_limit options) (sort_key (\<lambda>row. - snd row) rows)
           in (array_map
                 (\<lambda>row. case extractSnippet fts (d_content (fst row)) query of
                          Inl e \<Rightarrow> Inl e
                        | Inr snippet \<Rightarrow>
                            Inr \<lparr> rid = d_id (fst row), rpath = d_path (fst row),
                                  rtitle = d_title (fst row), rcollection = d_collection (fst row),
                                  rsnippet = snippet, rscore = snd row \<rparr>)
                 rows,
               st')))"

text \<open>
  Both searches are started, each asked for \<^verbatim>\<open>limit * 2\<close> rows with \<^verbatim>\<open>minScore: 0\<close>.
  \<^verbatim>\<open>Promise.all\<close> rejects with the exception of the search that fails first, and
  \<^verbatim>\<open>textSearch\<close>, which awaits nothing, fails before \<^verbatim>\<open>vectorSearch\<close> does; the
  exception leaves \<^verbatim>\<open>hybridSearch\<close> as it is.  When both searches return, the fused list
  is filtered by \<^verbatim>\<open>minScore\<close> and cut to \<^verbatim>\<open>limit\<close>.
\<close>

definition hybridSearch ::
  "fts_engine \<Rightarrow> natural_lib \<Rightarrow> embedding_engine \<Rightarrow> database \<Rightarrow> string \<Rightarrow> search_options
     \<Rightarrow> (error + search_result list) \<times> embedding_engine" where
  "hybridSearch fts lib st db query options =
     (let sub = \<lparr> opt_limit = opt_limit options * 2,
                  opt_collection = opt_collection options, opt_minScore = 0 \<rparr>;
          textOutcome = textSearch fts db query sub;
          (vectorOutcome, st') = vectorSearch fts lib st db query sub
      in case textOutcome of
           Inl e \<Rightarrow> (Inl e, st')
         | Inr textResults \<Rightarrow>
             (case vectorOutcome of
                Inl e \<Rightarrow> (Inl e, st')
              | Inr vectorResults \<Rightarrow>
                  (let combined = fuseResults textResults vectorResults query
                   in (Inr (take (opt_limit options)
                              (filter (\<lambda>result. rscore result \<ge> opt_minScore options) combined)),
                       st'))))"

section \<open>Concrete inputs\<close>

text \<open>Rows, tables and environments at which the theorems below are instantiated.\<close>

definition doc1 :: search_result where
  "doc1 = \<lparr> rid = ''d1'', rpath = ''/n/a.md'', rtitle = ''A'', rcollection = ''notes'',
            rsnippet = ''a'', rscore = 0.5 \<rparr>"

definition doc2 :: search_result where
  "doc2 = \<lparr> rid = ''d2'', rpath = ''/n/b.md'', rtitle = ''B'', rcollection = ''notes'',
            rsnippet = ''b'', rscore = 0.25 \<rparr>"

definition doc3 :: search_result where
  "doc3 = \<lparr> rid = ''d3'', rpath = ''/n/c.md'', rtitle = ''C'', rcollection = ''notes'',
            rsnippet = ''c'', rscore = 0.125 \<rparr>"

text \<open>
  A database with one collection and three documents, the first two with an embedding, and
  a full-text engine in which every document matches, with the BM25 values \<open>-8\<close>,
  \<open>-0.4\<close> and \<open>-0.1\<close> (FTS5 gives a better match a more negative value) and the row
  numbers 1, 2 and 3.  The engine reads an integer in the texts that are strings of decimal
  digits.  \<^verbatim>\<open>MATCH\<close> rejects the query \<^verbatim>\<open>c++\<close>, and so does \<^verbatim>\<open>new RegExp\<close> in
  \<^verbatim>\<open>extractSnippet\<close>.
\<close>

definition coll_notes :: collection_row where
  "coll_notes = \<lparr> c_name = ''notes'', c_path = ''/n'', c_mask = ''**/*.md'',
             c_created_at = 1, c_updated_at = 1 \<rparr>"

definition docA :: document_row where
  "docA = \<lparr> d_id = ''aaaaaaaa'', d_path = ''/n/a.md'', d_title = ''API Key Rotation'',
            d_content = ''rotate api keys every 90 days'', d_collection = ''notes'',
            d_size = 29, d_modified_at = 1000, d_indexed_at = 2 \<rparr>"

definition docB :: document_row where
  "docB = \<lparr> d_id = ''bbbbbbbb'', d_path = ''/n/b.md'', d_title = ''Deployment Pipeline'',
            d_content = ''the api gateway is deployed last'', d_collection = ''notes'',
            d_size = 32, d_modified_at = 1000, d_indexed_at = 2 \<rparr>"

definition docC :: document_row where
  "docC = \<lparr> d_id = ''cccccccc'', d_path = ''/n/c.md'', d_title = ''Color Palette'',
            d_content = ''colors of the api console'', d_collection = ''notes'',
            d_size = 25, d_modified_at = 1000, d_indexed_at = 2 \<rparr>"

definition db3 :: database where
  "db3 = \<lparr> collections = [coll_notes], documents = [docA, docB, docC],
           embeddings = [\<lparr> e_document_id = ''aaaaaaaa'', e_embedding = [1, 0], e_created_at = 3 \<rparr>,
                         \<lparr> e_document_id = ''bbbbbbbb'', e_embedding = [0, 1], e_created_at = 3 \<rparr>] \<rparr>"

definition fts3 :: fts_engine where
  "fts3 = \<lparr> fts_accepts = (\<lambda>query. query \<noteq> ''c++''),
            fts_match = (\<lambda>query d. True),
            bm25 = (\<lambda>query d. if d_path d = ''/n/a.md'' then - 8
                               else if d_path d = ''/n/b.md'' then - 0.4 else - 0.1),
            highlight = (\<lambda>query d. d_content d),
            rowid = (\<lambda>d. if d_path d = ''/n/a.md'' then 1
                          else if d_path d = ''/n/b.md'' then 2 else 3),
            text_as_integer = (\<lambda>s. if s \<noteq> [] \<and> list_all is_digit s
                                    then Some (int (read_digits s)) else None),
            cleanSnippet = (\<lambda>s. s),
            extractSnippet = (\<lambda>content query.
               if content \<noteq> [] \<and> query = ''c++''
               then Inl (SyntaxError ''Invalid regular expression: /(c++)/: Nothing to repeat'')
               else Inr content) \<rparr>"

text \<open>
  The same three files stored under ids that are numerals of the row numbers of their rows,
  so that the join of \<^verbatim>\<open>textSearch\<close> pairs every document with its own index row.
\<close>

definition db_paired :: database where
  "db_paired = db3 \<lparr> documents := [docA \<lparr> d_id := ''00000001'' \<rparr>,
                                     docB \<lparr> d_id := ''00000002'' \<rparr>,
                                     docC \<lparr> d_id := ''00000003'' \<rparr>],
                       embeddings := [] \<rparr>"

text \<open>
  Two stand-ins for the package \<^verbatim>\<open>natural\<close>.  In the first the class \<^verbatim>\<open>WordTokenizer\<close>
  has no property \<^verbatim>\<open>tokenize\<close>, as in the package.  In the second it has one, which
  returns the words between spaces; the stemmer is the identity in both.
\<close>

fun split_at_spaces :: "string \<Rightarrow> string \<Rightarrow> string list" where
  "split_at_spaces word [] = [rev word]"
| "split_at_spaces word (c # cs) =
     (if c = CHR '' '' then rev word # split_at_spaces [] cs
      else split_at_spaces (c # word) cs)"

definition natural_pkg :: natural_lib where
  "natural_pkg = \<lparr> WordTokenizer_tokenize = None,
                   stem = (\<lambda>t. t),
                   tfidf = (\<lambda>docs term d. 1),
                   md5 = (\<lambda>s. 0) \<rparr>"

definition natural_static :: natural_lib where
  "natural_static = natural_pkg \<lparr> WordTokenizer_tokenize :=
     Some (\<lambda>s. filter (\<lambda>w. w \<noteq> []) (split_at_spaces [] s)) \<rparr>"

text \<open>
  A collection with one file \<^verbatim>\<open>/n/a.md\<close>: the file as first written (modified at 1000),
  the file after a change (modified at 2000), and the directory after the file is deleted.
  The three databases are what three passes of the indexer leave, one after the other;
  the ids are the SHA-256 ids of the path with the two modification times.
\<close>

definition env_v1 :: indexer_env where
  "env_v1 = \<lparr> glob = (\<lambda>root mask. [''/n/a.md'']),
              statSync = (\<lambda>f. Some \<lparr> mtimeMs = 1000, st_size = 15 \<rparr>),
              readFileSync = (\<lambda>f. Some ''rotate api keys''),
              parseMarkdownFile = (\<lambda>content path. Some (''A'', content)),
              sha256 = sha256_digest, clock = 5 \<rparr>"

definition env_v2 :: indexer_env where
  "env_v2 = env_v1 \<lparr> statSync := (\<lambda>f. Some \<lparr> mtimeMs = 2000, st_size = 15 \<rparr>) \<rparr>"

definition env_gone :: indexer_env where
  "env_gone = env_v1 \<lparr> glob := (\<lambda>root mask. []) \<rparr>"

definition doc_v1 :: document_row where
  "doc_v1 = \<lparr> d_id = ''db2f511c'', d_path = ''/n/a.md'', d_title = ''A'',
              d_content = ''rotate api keys'', d_collection = ''notes'',
              d_size = 15, d_modified_at = 1000, d_indexed_at = 5 \<rparr>"

definition doc_v2 :: document_row where
  "doc_v2 = doc_v1 \<lparr> d_id := ''8de2316d'', d_modified_at := 2000 \<rparr>"

definition db_v0 :: database where
  "db_v0 = \<lparr> collections = [coll_notes], documents = [], embeddings = [] \<rparr>"

definition db_v1 :: database where
  "db_v1 = db_v0 \<lparr> documents := [doc_v1] \<rparr>"

definition db_v2 :: database where
  "db_v2 = db_v0 \<lparr> documents := [doc_v1, doc_v2] \<rparr>"

definition db_v3 :: database where
  "db_v3 = db_v0 \<lparr> documents := [doc_v2] \<rparr>"



text \<open>
  A pass over three matched files on \<^const>\<open>db3\<close>: the first is unchanged, the second
  cannot be read by \<^verbatim>\<open>statSync\<close>, the third is new.
\<close>

definition env_mixed :: indexer_env where
  "env_mixed = \<lparr> glob = (\<lambda>root mask. [''/n/a.md'', ''/n/bad.md'', ''/n/new.md'']),
                 statSync = (\<lambda>f. if f = ''/n/bad.md'' then None
                                  else if f = ''/n/a.md'' then Some \<lparr> mtimeMs = 1000.5, st_size = 29 \<rparr>
                                  else Some \<lparr> mtimeMs = 3000, st_size = 5 \<rparr>),
                 readFileSync = (\<lambda>f. if f = ''/n/new.md'' then Some ''# New'' else None),
                 parseMarkdownFile = (\<lambda>content path. Some (''New'', [])),
                 sha256 = sha256_digest, clock = 7 \<rparr>"

text \<open>
  The row that this pass stores for the new file, and the store it leaves: the documents of
  the two paths that were not matched are removed.
\<close>

definition doc_new :: document_row where
  "doc_new = \<lparr> d_id = ''b38fa5a2'', d_path = ''/n/new.md'', d_title = ''New'',
               d_content = [], d_collection = ''notes'',
               d_size = 5, d_modified_at = 3000, d_indexed_at = 7 \<rparr>"

definition db_mixed :: database where
  "db_mixed = db3 \<lparr> documents := [docA, doc_new] \<rparr>"

section \<open>Properties of the fusion\<close>

subsection \<open>The JavaScript Map\<close>

lemma map_of_map_set: "map_of (map_set m k v) = (map_of m)(k \<mapsto> v)"
  by (induction m k v rule: map_set.induct) (auto simp: fun_eq_iff)

lemma keys_map_set: "fst ` set (map_set m k v) = insert k (fst ` set m)"
  by (induction m k v rule: map_set.induct) auto

lemma distinct_map_set:
  "distinct (map fst m) \<Longrightarrow> distinct (map fst (map_set m k v))"
proof (induction m k v rule: map_set.induct)
  case (1 k v)
  then show ?case by simp
next
  case (2 k' v' m k v)
  show ?case
  proof (cases "k' = k")
    case True
    with 2 show ?thesis by simp
  next
    case False
    with 2 have "distinct (map fst (map_set m k v))" by simp
    moreover have "k' \<notin> fst ` set (map_set m k v)"
      using 2(2) False by (simp add: keys_map_set)
    ultimately show ?thesis using False by simp
  qed
qed

lemma rank_of_append:
  "rank_of d (xs @ [x]) =
     (case rank_of d xs of Some r \<Rightarrow> Some r
      | None \<Rightarrow> if x = d then Some (length xs + 1) else None)"
  by (induction xs) (auto split: option.splits)

lemma rank_of_None: "rank_of d xs = None \<longleftrightarrow> d \<notin> set xs"
  by (induction xs) auto

lemma rank_of_pos: "rank_of d xs = Some r \<Longrightarrow> 1 \<le> r \<and> r \<le> length xs"
  by (induction xs arbitrary: r) (auto split: if_splits)

lemma enumerate_snoc: "enumerate n (xs @ [x]) = enumerate n xs @ [(n + length xs, x)]"
  by (simp add: enumerate_append_eq)

lemma rank_of_snoc_other: "x \<noteq> d \<Longrightarrow> rank_of d (xs @ [x]) = rank_of d xs"
  by (simp add: rank_of_append split: option.splits)

lemma rank_of_snoc_new: "d \<notin> set xs \<Longrightarrow> rank_of d (xs @ [d]) = Some (length xs + 1)"
  using rank_of_None[of d xs] by (simp add: rank_of_append)

lemma text_step_ok:
  assumes "map_ok tids [] m" "rid x \<notin> set tids" "length tids = n"
  shows "map_ok (tids @ [rid x]) [] (text_step m (n, x))"
proof -
  let ?new = "search_result.extend x
              \<lparr> textRank = Some (n + 1), textScore = rscore x,
                vectorRank = None, vectorScore = 0,
                rrfScore = 1 / real (rrf_k + n + 1) * 2 \<rparr>"
  have step: "text_step m (n, x) = map_set m (rid x) ?new"
    by (simp add: text_step_def Let_def)
  have new_ok: "entry_ok (tids @ [rid x]) [] (rid x) ?new"
    using assms(2,3)
    by (simp add: entry_ok_def rank_of_snoc_new rrf_sum_def rrf_k_def search_result.defs add.commute)
  have old_ok: "entry_ok (tids @ [rid x]) [] d e" if "map_of m d = Some e" "d \<noteq> rid x" for d e
  proof -
    from that assms(1) have "entry_ok tids [] d e" by (simp add: map_ok_def)
    with that(2) show ?thesis by (simp add: entry_ok_def rank_of_snoc_other)
  qed
  show ?thesis
    unfolding map_ok_def step
    using assms(1) new_ok old_ok
    by (auto simp: map_ok_def distinct_map_set keys_map_set map_of_map_set split: if_splits)
qed

lemma text_pass_ok:
  "distinct (map rid T) \<Longrightarrow> map_ok (map rid T) [] (foldl text_step [] (enumerate 0 T))"
proof (induction T rule: rev_induct)
  case Nil
  then show ?case by (simp add: map_ok_def)
next
  case (snoc x xs)
  then have "map_ok (map rid xs) [] (foldl text_step [] (enumerate 0 xs))" by simp
  moreover have "rid x \<notin> set (map rid xs)" using snoc.prems by auto
  ultimately show ?case
    using text_step_ok[of "map rid xs" _ x "length xs"]
    by (simp add: enumerate_snoc)
qed

lemma vector_step_ok:
  assumes "map_ok tids vids m" "rid y \<notin> set vids" "length vids = n"
  shows "map_ok tids (vids @ [rid y]) (vector_step m (n, y))"
proof (cases "map_of m (rid y)")
  case None
  let ?new = "search_result.extend y
                \<lparr> textRank = None, textScore = 0,
                  vectorRank = Some (n + 1), vectorScore = rscore y,
                  rrfScore = 1 / real (rrf_k + n + 1) \<rparr>"
  have step: "vector_step m (n, y) = map_set m (rid y) ?new"
    using None by (simp add: vector_step_def Let_def map_get_def)
  from None have "rid y \<notin> fst ` set m" by (simp add: map_of_eq_None_iff)
  with assms(1) have nt: "rank_of (rid y) tids = None"
    by (simp add: map_ok_def rank_of_None)
  have new_ok: "entry_ok tids (vids @ [rid y]) (rid y) ?new"
    using assms(2,3) nt
    by (simp add: entry_ok_def rank_of_snoc_new rrf_sum_def rrf_k_def search_result.defs add.commute)
  have old_ok: "entry_ok tids (vids @ [rid y]) d e" if "map_of m d = Some e" "d \<noteq> rid y" for d e
  proof -
    from that assms(1) have "entry_ok tids vids d e" by (simp add: map_ok_def)
    with that(2) show ?thesis by (simp add: entry_ok_def rank_of_snoc_other)
  qed
  show ?thesis
    unfolding map_ok_def step
    using assms(1) new_ok old_ok
    by (auto simp: map_ok_def distinct_map_set keys_map_set map_of_map_set split: if_splits)
next
  case (Some existing)
  define e1 where "e1 = existing \<lparr> vectorRank := Some (n + 1), vectorScore := rscore y,
                                   rrfScore := rrfScore existing + 1 / real (rrf_k + n + 1) \<rparr>"
  define e2 where "e2 = (if rscore y > vectorScore e1 \<or> rsnippet e1 = []
                         then e1 \<lparr> rsnippet := rsnippet y \<rparr> else e1)"
  have step: "vector_step m (n, y) = map_set m (rid y) e2"
    using Some by (simp add: vector_step_def Let_def map_get_def e1_def e2_def)
  from Some assms(1) have ex: "entry_ok tids vids (rid y) existing" by (simp add: map_ok_def)
  have nv: "rank_of (rid y) vids = None" using assms(2) by (simp add: rank_of_None)
  have e2_fields: "rid e2 = rid existing" "textRank e2 = textRank existing"
    "vectorRank e2 = Some (n + 1)" "rrfScore e2 = rrfScore existing + 1 / real (rrf_k + n + 1)"
    by (simp_all add: e1_def e2_def)
  have new_ok: "entry_ok tids (vids @ [rid y]) (rid y) e2"
    using ex nv assms(2,3) e2_fields
    by (simp add: entry_ok_def rank_of_snoc_new rrf_sum_def rrf_k_def add.commute)
  have old_ok: "entry_ok tids (vids @ [rid y]) d e" if "map_of m d = Some e" "d \<noteq> rid y" for d e
  proof -
    from that assms(1) have "entry_ok tids vids d e" by (simp add: map_ok_def)
    with that(2) show ?thesis by (simp add: entry_ok_def rank_of_snoc_other)
  qed
  show ?thesis
    unfolding map_ok_def step
    using assms(1) new_ok old_ok
    by (auto simp: map_ok_def distinct_map_set keys_map_set map_of_map_set split: if_splits)
qed

lemma vector_pass_ok:
  "map_ok tids [] m \<Longrightarrow> distinct (map rid V) \<Longrightarrow>
   map_ok tids (map rid V) (foldl vector_step m (enumerate 0 V))"
proof (induction V rule: rev_induct)
  case Nil
  then show ?case by simp
next
  case (snoc y ys)
  then have "map_ok tids (map rid ys) (foldl vector_step m (enumerate 0 ys))" by simp
  moreover have "rid y \<notin> set (map rid ys)" using snoc.prems by auto
  ultimately show ?case
    using vector_step_ok[of tids "map rid ys" _ y "length ys"]
    by (simp add: enumerate_snoc)
qed

lemma resultMap_ok:
  "distinct (map rid T) \<Longrightarrow> distinct (map rid V) \<Longrightarrow>
   map_ok (map rid T) (map rid V) (resultMap T V)"
  unfolding resultMap_def by (rule vector_pass_ok[OF text_pass_ok])

lemma computeFinalScore_ok:
  assumes "entry_ok tids vids d e"
  shows "computeFinalScore e = fused_score (rank_of d tids) (rank_of d vids)"
proof -
  have t: "truthy_rank (rank_of d xs) \<longleftrightarrow> rank_of d xs \<noteq> None" for xs
    using rank_of_pos[of d xs] by (cases "rank_of d xs") (auto simp: truthy_rank_def)
  show ?thesis using assms
    by (simp add: computeFinalScore_def fused_score_def boosted_sum_def entry_ok_def t Let_def)
qed

lemma fuseResults_entries:
  assumes "distinct (map rid T)" "distinct (map rid V)" "r \<in> set (fuseResults T V q)"
  shows "rscore r = fused_score (rank_of (rid r) (map rid T)) (rank_of (rid r) (map rid V))"
    and "rid r \<in> rid ` set T \<union> rid ` set V"
proof -
  have ok: "map_ok (map rid T) (map rid V) (resultMap T V)"
    using assms(1,2) by (rule resultMap_ok)
  from assms(3) obtain k e where ke: "(k, e) \<in> set (resultMap T V)"
    and r: "rid r = rid e" "rscore r = computeFinalScore e"
    by (auto simp: fuseResults_def map_values_def)
  from ok ke have "map_of (resultMap T V) k = Some e" by (simp add: map_ok_def)
  with ok have eo: "entry_ok (map rid T) (map rid V) k e" by (simp add: map_ok_def)
  then have k: "rid e = k" by (simp add: entry_ok_def)
  from eo show "rscore r = fused_score (rank_of (rid r) (map rid T)) (rank_of (rid r) (map rid V))"
    using computeFinalScore_ok[OF eo] r k by simp
  from ke have "k \<in> fst ` set (resultMap T V)" by force
  with ok show "rid r \<in> rid ` set T \<union> rid ` set V"
    using r k by (simp add: map_ok_def)
qed

lemma distinct_map_sort_key:
  "distinct (map g (sort_key f xs)) = distinct (map g xs)"
proof -
  have "mset (map g (sort_key f xs)) = mset (map g xs)" by simp
  then show ?thesis by (rule mset_eq_imp_distinct_iff)
qed

lemma resultMap_rid_keys:
  assumes "map_ok tids vids m"
  shows "map rid (map snd m) = map fst m"
proof -
  have "rid (snd p) = fst p" if "p \<in> set m" for p
  proof -
    obtain k e where p: "p = (k, e)" by (cases p)
    with that assms have "map_of m k = Some e" by (simp add: map_ok_def)
    with assms have "entry_ok tids vids k e" by (simp add: map_ok_def)
    then show ?thesis by (simp add: p entry_ok_def)
  qed
  then show ?thesis by simp
qed

lemma fuseResults_rids:
  "map rid (fuseResults T V q) =
     map rid (sort_key (\<lambda>e. - rrfScore e) (map snd (resultMap T V)))"
  by (simp add: fuseResults_def map_values_def comp_def)

lemma fuseResults_ids:
  assumes "distinct (map rid T)" "distinct (map rid V)"
  shows "rid ` set (fuseResults T V q) = rid ` set T \<union> rid ` set V"
    and "distinct (map rid (fuseResults T V q))"
proof -
  have ok: "map_ok (map rid T) (map rid V) (resultMap T V)"
    using assms by (rule resultMap_ok)
  note key = resultMap_rid_keys[OF ok]
  have "set (map rid (fuseResults T V q)) = set (map rid (map snd (resultMap T V)))"
    unfolding fuseResults_rids by (simp add: image_image)
  also have "\<dots> = fst ` set (resultMap T V)" unfolding key by simp
  finally show "rid ` set (fuseResults T V q) = rid ` set T \<union> rid ` set V"
    using ok by (simp add: map_ok_def)
  have "distinct (map rid (map snd (resultMap T V)))"
    unfolding key using ok by (simp add: map_ok_def)
  then show "distinct (map rid (fuseResults T V q))"
    unfolding fuseResults_rids by (simp only: distinct_map_sort_key)
qed

lemma score_of_fuseResults:
  assumes "distinct (map rid T)" "distinct (map rid V)" "d \<in> rid ` set T \<union> rid ` set V"
  shows "score_of d (fuseResults T V q) =
           Some (fused_score (rank_of d (map rid T)) (rank_of d (map rid V)))"
proof -
  from assms(3) have "d \<in> rid ` set (fuseResults T V q)"
    using fuseResults_ids(1)[OF assms(1,2)] by simp
  then obtain r where "find (\<lambda>r. rid r = d) (fuseResults T V q) = Some r"
    by (cases "find (\<lambda>r. rid r = d) (fuseResults T V q)") (auto simp: find_None_iff)
  moreover from this have "r \<in> set (fuseResults T V q)" "rid r = d"
    by (auto simp: find_Some_iff)
  ultimately show ?thesis
    using fuseResults_entries(1)[OF assms(1,2), of r q] by (simp add: score_of_def)
qed

lemma rrf_sum_bounds:
  assumes "rt \<noteq> Some 0" "rv \<noteq> Some 0"
  shows "0 \<le> rrf_sum rt rv" "rrf_sum rt rv \<le> 3 / 61"
proof -
  have t: "(case rt of None \<Rightarrow> 0 | Some r \<Rightarrow> 2 * (1 / (60 + real r))) \<le> 2 / 61"
    "0 \<le> (case rt of None \<Rightarrow> 0 | Some r \<Rightarrow> 2 * (1 / (60 + real r)))"
    using assms(1) by (cases rt; simp add: field_simps; linarith)+
  have v: "(case rv of None \<Rightarrow> 0 | Some r \<Rightarrow> 1 * (1 / (60 + real r))) \<le> 1 / 61"
    "0 \<le> (case rv of None \<Rightarrow> 0 | Some r \<Rightarrow> 1 * (1 / (60 + real r)))"
    using assms(2) by (cases rv; simp add: field_simps; linarith)+
  show "0 \<le> rrf_sum rt rv" using t v by (simp add: rrf_sum_def)
  show "rrf_sum rt rv \<le> 3 / 61" using t v by (simp add: rrf_sum_def)
qed

lemma boosted_sum_bounds:
  assumes "rt \<noteq> Some 0" "rv \<noteq> Some 0"
  shows "0 \<le> boosted_sum rt rv" "boosted_sum rt rv \<le> 3 / 61 * 1.2 * 1.1"
proof -
  note b = rrf_sum_bounds[OF assms]
  define s where "s = rrf_sum rt rv"
  have s: "0 \<le> s" "s \<le> 3 / 61" using b by (simp_all add: s_def)
  show "0 \<le> boosted_sum rt rv" using s(1) by (simp add: boosted_sum_def s_def[symmetric])
  show "boosted_sum rt rv \<le> 3 / 61 * 1.2 * 1.1"
    using s by (auto simp: boosted_sum_def s_def[symmetric])
qed

lemma fused_score_unclamped:
  assumes "rt \<noteq> Some 0" "rv \<noteq> Some 0"
  shows "fused_score rt rv = boosted_sum rt rv"
  using boosted_sum_bounds[OF assms] by (simp add: fused_score_def)

subsection \<open>Both lists against one list\<close>

lemma fused_score_both_gt_text:
  assumes "1 \<le> i" "1 \<le> j"
  shows "fused_score (Some i) None < fused_score (Some i) (Some j)"
proof -
  define a where "a = 2 * (1 / (60 + real i))"
  define c where "c = 1 * (1 / (60 + real j))"
  have pos: "0 < a" "0 < c" by (simp_all add: a_def c_def)
  have l: "fused_score (Some i) None = boosted_sum (Some i) None"
    using assms by (intro fused_score_unclamped) auto
  have r: "fused_score (Some i) (Some j) = boosted_sum (Some i) (Some j)"
    using assms by (intro fused_score_unclamped) auto
  have L: "boosted_sum (Some i) None = a * (if i = 1 then 1.1 else 1)"
    by (simp add: boosted_sum_def rrf_sum_def a_def)
  have R: "boosted_sum (Some i) (Some j) = (a + c) * 1.2 * (if i = 1 \<or> j = 1 then 1.1 else 1)"
    by (simp add: boosted_sum_def rrf_sum_def a_def c_def)
  have "a * (if i = 1 then 1.1 else 1) < (a + c) * 1.2 * (if i = 1 \<or> j = 1 then 1.1 else 1)"
    using pos by (auto simp: algebra_simps)
  then have "boosted_sum (Some i) None < boosted_sum (Some i) (Some j)"
    by (simp only: L R)
  with l r show ?thesis by simp
qed

lemma fused_score_both_gt_vector:
  assumes "1 \<le> i" "1 \<le> j"
  shows "fused_score None (Some j) < fused_score (Some i) (Some j)"
proof -
  define a where "a = 2 * (1 / (60 + real i))"
  define c where "c = 1 * (1 / (60 + real j))"
  have pos: "0 < a" "0 < c" by (simp_all add: a_def c_def)
  have l: "fused_score None (Some j) = boosted_sum None (Some j)"
    using assms by (intro fused_score_unclamped) auto
  have r: "fused_score (Some i) (Some j) = boosted_sum (Some i) (Some j)"
    using assms by (intro fused_score_unclamped) auto
  have L: "boosted_sum None (Some j) = c * (if j = 1 then 1.1 else 1)"
    by (simp add: boosted_sum_def rrf_sum_def c_def)
  have R: "boosted_sum (Some i) (Some j) = (a + c) * 1.2 * (if i = 1 \<or> j = 1 then 1.1 else 1)"
    by (simp add: boosted_sum_def rrf_sum_def a_def c_def)
  have "c * (if j = 1 then 1.1 else 1) < (a + c) * 1.2 * (if i = 1 \<or> j = 1 then 1.1 else 1)"
    using pos by (auto simp: algebra_simps)
  then have "boosted_sum None (Some j) < boosted_sum (Some i) (Some j)"
    by (simp only: L R)
  with l r show ?thesis by simp
qed

section \<open>Properties of the document ids\<close>

lemma length_digest_hex: "length (digest_hex (w::'a::len word)) = LENGTH('a) div 4"
  by (simp add: digest_hex_def)

lemma length_generateDocumentId: "length (generateDocumentId sha p m) = 8"
  by (simp add: generateDocumentId_def length_digest_hex)

lemma hex_digit_in: "hex_digit n \<in> set ''0123456789abcdef''"
  unfolding hex_digit_def by (rule nth_mem) simp

lemma set_digest_hex: "set (digest_hex w) \<subseteq> set ''0123456789abcdef''"
  unfolding digest_hex_def using hex_digit_in by auto

lemma set_generateDocumentId: "set (generateDocumentId sha p m) \<subseteq> set ''0123456789abcdef''"
  unfolding generateDocumentId_def using set_digest_hex set_take_subset by fast

lemma nibble_top32:
  assumes "i < 8"
  shows "unat (take_bit 4 (drop_bit (4 * i) (digest_top32 w))) =
         unat (take_bit 4 (drop_bit (4 * (56 + i)) w))"
  using assms
  by (auto simp: bit_eq_iff unsigned_take_bit_eq digest_top32_def bit_simps ac_simps)

lemma generateDocumentId_top32:
  "generateDocumentId sha p m = digest_hex (digest_top32 (sha (p @ number_toString m)))"
proof -
  define W where "W = sha (p @ number_toString m)"
  have r: "take 8 (rev [0..<64]) = map (\<lambda>i. 56 + i) (rev [0..<(8::nat)])"
    by code_simp
  have "take 8 (digest_hex W) =
      map (\<lambda>i. hex_digit (unat (take_bit 4 (drop_bit (4 * i) W)))) (take 8 (rev [0..<64]))"
    by (simp add: digest_hex_def take_map)
  also have "\<dots> = map (\<lambda>i. hex_digit (unat (take_bit 4 (drop_bit (4 * (56 + i)) W)))) (rev [0..<8])"
    by (simp only: r map_map comp_def)
  also have "\<dots> = map (\<lambda>i. hex_digit (unat (take_bit 4 (drop_bit (4 * i) (digest_top32 W))))) (rev [0..<8])"
    by (rule map_cong) (simp_all add: nibble_top32)
  also have "\<dots> = digest_hex (digest_top32 W)"
    by (simp add: digest_hex_def)
  finally show ?thesis by (simp add: generateDocumentId_def W_def)
qed

lemma hex_digit_inj:
  assumes "a < 16" "b < 16" "hex_digit a = hex_digit b"
  shows "a = b"
proof -
  have d: "distinct ''0123456789abcdef''" by simp
  have l: "length ''0123456789abcdef'' = 16" by simp
  from assms show ?thesis
    unfolding hex_digit_def using nth_eq_iff_index_eq[OF d, of a b] l by simp
qed

lemma digest_hex_inj32:
  fixes w w' :: "32 word"
  assumes "digest_hex w = digest_hex w'"
  shows "w = w'"
proof -
  have nib: "take_bit 4 (drop_bit (4 * i) w) = take_bit 4 (drop_bit (4 * i) w')" if "i < 8" for i
  proof -
    from assms have "map (\<lambda>i. hex_digit (unat (take_bit 4 (drop_bit (4 * i) w)))) [0..<8] =
        map (\<lambda>i. hex_digit (unat (take_bit 4 (drop_bit (4 * i) w')))) [0..<8]"
      by (simp add: digest_hex_def rev_map[symmetric] del: upt_rec_numeral)
    then have "hex_digit (unat (take_bit 4 (drop_bit (4 * i) w))) =
        hex_digit (unat (take_bit 4 (drop_bit (4 * i) w')))"
      using that by (simp del: upt_rec_numeral)
    moreover have lt: "unat (take_bit 4 x) < 16" for x :: "32 word"
      using take_bit_nat_less_exp[of 4 "unat x"] by (simp add: unsigned_take_bit_eq)
    ultimately have "unat (take_bit 4 (drop_bit (4 * i) w)) = unat (take_bit 4 (drop_bit (4 * i) w'))"
      using hex_digit_inj[OF lt lt] by blast
    then show ?thesis by (simp add: word_unat_eq_iff)
  qed
  show ?thesis
  proof (rule bit_word_eqI)
    fix n assume n: "n < LENGTH(32)"
    define i where "i = n div 4"
    define k where "k = n mod 4"
    have i: "i < 8" and k: "k < 4" and nk: "n = k + 4 * i" using n by (simp_all add: i_def k_def)
    have "bit w n = bit (take_bit 4 (drop_bit (4 * i) w)) k"
      using k by (simp add: bit_simps nk ac_simps)
    also have "\<dots> = bit (take_bit 4 (drop_bit (4 * i) w')) k" by (simp add: nib[OF i])
    also have "\<dots> = bit w' n" using k by (simp add: bit_simps nk ac_simps)
    finally show "bit w n = bit w' n" .
  qed
qed

lemma generateDocumentId_eq_iff:
  "generateDocumentId sha p m = generateDocumentId sha p' m' \<longleftrightarrow>
   digest_top32 (sha (p @ number_toString m)) = digest_top32 (sha (p' @ number_toString m'))"
  unfolding generateDocumentId_top32 using digest_hex_inj32 by auto

lemma generateDocumentId_collision:
  "\<exists>m1 m2. T \<le> m1 \<and> m1 < m2 \<and> m2 \<le> T + 2 ^ 32 \<and>
     generateDocumentId sha p m1 = generateDocumentId sha p m2"
proof -
  define f where "f = (\<lambda>m. digest_top32 (sha (p @ number_toString m)))"
  define A where "A = {T .. T + 2 ^ 32}"
  have "card (f ` A) \<le> card (UNIV :: 32 word set)"
    by (rule card_mono) simp_all
  also have "\<dots> = 2 ^ 32" by (simp add: card_word)
  also have "\<dots> < card A" by (simp add: A_def)
  finally have "\<not> inj_on f A" using pigeonhole by blast
  then obtain a b where ab: "a \<in> A" "b \<in> A" "a \<noteq> b" "f a = f b"
    by (auto simp: inj_on_def)
  then have eq: "generateDocumentId sha p a = generateDocumentId sha p b"
    by (simp add: generateDocumentId_eq_iff f_def)
  show ?thesis
  proof (cases "a < b")
    case True
    with ab eq show ?thesis by (auto simp: A_def)
  next
    case False
    with ab have "b < a" by simp
    with ab eq show ?thesis unfolding A_def by (metis atLeastAtMost_iff)
  qed
qed

lemma digit_char_value: "n < 10 \<Longrightarrow> of_char (digit_char n) - 48 = n"
proof -
  assume n: "n < 10"
  have "list_all (\<lambda>k. of_char (digit_char k) - 48 = k) [0..<10]"
    by code_simp
  with n show ?thesis by (simp add: list_all_iff del: upt_rec_numeral)
qed

lemma digit_char_in: "digit_char n \<in> set ''0123456789''"
  unfolding digit_char_def by (rule nth_mem) simp

lemma read_digits_snoc: "read_digits (s @ [c]) = 10 * read_digits s + (of_char c - 48)"
  by (simp add: read_digits_def)

lemma read_show_nat: "read_digits (show_nat n) = n"
proof (induction n rule: show_nat.induct)
  case (1 n)
  show ?case
  proof (cases "n < 10")
    case True
    then show ?thesis
      by (subst show_nat.simps) (simp add: read_digits_def digit_char_value)
  next
    case False
    then have "read_digits (show_nat n) =
        10 * read_digits (show_nat (n div 10)) + (of_char (digit_char (n mod 10)) - 48)"
      by (subst show_nat.simps) (simp add: read_digits_snoc)
    also have "\<dots> = 10 * (n div 10) + n mod 10"
      using 1[OF False] by (simp add: digit_char_value)
    finally show ?thesis by simp
  qed
qed

lemma show_nat_digits: "set (show_nat n) \<subseteq> set ''0123456789''"
proof (induction n rule: show_nat.induct)
  case (1 n)
  show ?case
  proof (cases "n < 10")
    case True
    then show ?thesis using digit_char_in[of n] by (subst show_nat.simps) simp
  next
    case False
    then show ?thesis
      using 1[OF False] digit_char_in[of "n mod 10"] by (subst show_nat.simps) simp
  qed
qed

lemma show_nat_not_Nil: "show_nat n \<noteq> []"
  by (subst show_nat.simps) simp

lemma show_nat_no_minus: "show_nat n \<noteq> CHR ''-'' # s"
proof
  assume "show_nat n = CHR ''-'' # s"
  then have "CHR ''-'' \<in> set (show_nat n)" by simp
  with show_nat_digits[of n] show False by auto
qed

lemma number_toString_inj:
  assumes "number_toString a = number_toString b"
  shows "a = b"
proof -
  have nat_inj: "show_nat x = show_nat y \<Longrightarrow> x = y" for x y
    using read_show_nat by metis
  show ?thesis
  proof (cases "a < 0"; cases "b < 0")
    assume "a < 0" "b < 0"
    with assms have "nat (- a) = nat (- b)" by (auto simp: number_toString_def dest: nat_inj)
    with \<open>a < 0\<close> \<open>b < 0\<close> show ?thesis by simp
  next
    assume "a < 0" "\<not> b < 0"
    with assms show ?thesis
      using show_nat_no_minus[of "nat b" "show_nat (nat (- a))"] by (simp add: number_toString_def)
  next
    assume "\<not> a < 0" "b < 0"
    with assms show ?thesis
      using show_nat_no_minus[of "nat a" "show_nat (nat (- b))"] by (simp add: number_toString_def)
  next
    assume "\<not> a < 0" "\<not> b < 0"
    with assms have "nat a = nat b" by (auto simp: number_toString_def dest: nat_inj)
    with \<open>\<not> a < 0\<close> \<open>\<not> b < 0\<close> show ?thesis by simp
  qed
qed

subsection \<open>Ids of concrete files\<close>

text \<open>The hash function on the test vector of the standard.\<close>

lemma sha256_abc:
  "sha256_digest ''abc'' = 0xba7816bf8f01cfea414140de5dae2223b00361a396177a9cb410ff61f20015ad"
  by code_simp

lemma id_at_1700000032507:
  "generateDocumentId sha256_digest ''/n/a.md'' 1700000032507 = ''26be7385''"
proof -
  have m: "''/n/a.md'' @ number_toString 1700000032507 = ''/n/a.md1700000032507''"
    by (simp add: number_toString_def show_nat.simps digit_char_def)
  have h: "digest_top32 (sha256_digest ''/n/a.md1700000032507'') = 0x26be7385"
    by code_simp
  have x: "digest_hex (0x26be7385 :: 32 word) = ''26be7385''"
    by code_simp
  show ?thesis by (simp only: generateDocumentId_top32 m h x)
qed

lemma id_at_1700000090854:
  "generateDocumentId sha256_digest ''/n/a.md'' 1700000090854 = ''26be7385''"
proof -
  have m: "''/n/a.md'' @ number_toString 1700000090854 = ''/n/a.md1700000090854''"
    by (simp add: number_toString_def show_nat.simps digit_char_def)
  have h: "digest_top32 (sha256_digest ''/n/a.md1700000090854'') = 0x26be7385"
    by code_simp
  have x: "digest_hex (0x26be7385 :: 32 word) = ''26be7385''"
    by code_simp
  show ?thesis by (simp only: generateDocumentId_top32 m h x)
qed

lemma top32_at_1000:
  "digest_top32 (sha256_digest (''/n/a.md'' @ number_toString 1000)) = 0xdb2f511c"
proof -
  have m: "''/n/a.md'' @ number_toString 1000 = ''/n/a.md1000''"
    by (simp add: number_toString_def show_nat.simps digit_char_def)
  have h: "digest_top32 (sha256_digest ''/n/a.md1000'') = 0xdb2f511c"
    by code_simp
  show ?thesis by (simp only: m h)
qed

lemma top32_at_2000:
  "digest_top32 (sha256_digest (''/n/a.md'' @ number_toString 2000)) = 0x8de2316d"
proof -
  have m: "''/n/a.md'' @ number_toString 2000 = ''/n/a.md2000''"
    by (simp add: number_toString_def show_nat.simps digit_char_def)
  have h: "digest_top32 (sha256_digest ''/n/a.md2000'') = 0x8de2316d"
    by code_simp
  show ?thesis by (simp only: m h)
qed

section \<open>Properties of the collection manager\<close>

subsection \<open>Removing a collection\<close>








subsection \<open>Indexing a collection\<close>

lemma set_set_add: "set (set_add s x) = insert x (set s)"
  by (auto simp: set_add_def)

lemma distinct_set_add: "distinct s \<Longrightarrow> distinct (set_add s x)"
  by (auto simp: set_add_def)

lemma set_foldl_set_add: "set (foldl set_add s xs) = set s \<union> set xs"
  by (induction xs arbitrary: s) (auto simp: set_set_add)

lemma set_new_Set: "set (new_Set xs) = set xs"
  by (simp add: new_Set_def set_foldl_set_add)

lemma index_file_counts:
  "ix_indexed (index_file env c ex st f) =
     ix_indexed st + (if file_outcome env ex f = Indexed then 1 else 0)"
  "ix_skipped (index_file env c ex st f) =
     ix_skipped st + (if file_outcome env ex f = Skipped then 1 else 0)"
  "set (processedPaths (index_file env c ex st f)) = insert f (set (processedPaths st))"
  by (auto simp: index_file_def file_outcome_def Let_def set_set_add
      split: option.splits prod.splits)

lemma index_files_counts:
  "ix_indexed (foldl (index_file env c ex) st files) =
     ix_indexed st + length (filter (\<lambda>f. file_outcome env ex f = Indexed) files)"
  "ix_skipped (foldl (index_file env c ex) st files) =
     ix_skipped st + length (filter (\<lambda>f. file_outcome env ex f = Skipped) files)"
  "set (processedPaths (foldl (index_file env c ex) st files)) =
     set (processedPaths st) \<union> set files"
  by (induction files arbitrary: st) (auto simp: index_file_counts)

lemma find_SomeD: "find P xs = Some x \<Longrightarrow> x \<in> set xs \<and> P x"
  by (induction xs) (auto split: if_splits)

lemma find_collection:
  assumes "name \<in> set (map c_name (collections db))"
  shows "\<exists>c. find (\<lambda>c. c_name c = name) (map fst (getCollections db)) = Some c \<and>
             c \<in> set (collections db) \<and> c_name c = name"
proof -
  have m: "map fst (getCollections db) = sort_key c_name (collections db)"
    by (simp add: getCollections_def comp_def)
  from assms have "\<exists>c\<in>set (sort_key c_name (collections db)). c_name c = name" by auto
  then obtain c where "find (\<lambda>c. c_name c = name) (sort_key c_name (collections db)) = Some c"
    by (cases "find (\<lambda>c. c_name c = name) (sort_key c_name (collections db))")
       (auto simp: find_None_iff)
  moreover from this have "c \<in> set (sort_key c_name (collections db))" "c_name c = name"
    by (auto dest: find_SomeD)
  ultimately show ?thesis using m by auto
qed

lemma find_collection_unique:
  assumes "distinct (map c_name (collections db))" "c \<in> set (collections db)"
  shows "find (\<lambda>x. c_name x = c_name c) (map fst (getCollections db)) = Some c"
proof -
  from find_collection[of "c_name c" db] assms(2)
  obtain c' where c': "find (\<lambda>x. c_name x = c_name c) (map fst (getCollections db)) = Some c'"
    "c' \<in> set (collections db)" "c_name c' = c_name c" by auto
  with assms have "c' = c" by (auto simp: distinct_map inj_on_def)
  with c' show ?thesis by simp
qed

lemma indexCollection_counts:
  assumes "distinct (map c_name (collections db))" "c \<in> set (collections db)"
  shows "\<exists>db'. indexCollection env db (c_name c) =
           Inr (db',
             \<lparr> indexed = length (filter
                  (\<lambda>f. file_outcome env (getDocumentsByCollection db (c_name c)) f = Indexed)
                  (glob env (c_path c) (c_mask c))),
               skipped = length (filter
                  (\<lambda>f. file_outcome env (getDocumentsByCollection db (c_name c)) f = Skipped)
                  (glob env (c_path c) (c_mask c))),
               removed = length (filter (\<lambda>p. p \<notin> set (glob env (c_path c) (c_mask c)))
                  (new_Set (map d_path (getDocumentsByCollection db (c_name c))))) \<rparr>)"
  using find_collection_unique[OF assms(1,2)]
  by (simp add: indexCollection_def Let_def index_files_counts)

lemma indexCollection_absent:
  assumes "name \<notin> set (map c_name (collections db))"
  shows "indexCollection env db name = Inl (CollectionNotFound name)"
proof -
  have "find (\<lambda>c. c_name c = name) (map fst (getCollections db)) = None"
    using assms by (auto simp: find_None_iff getCollections_def)
  then show ?thesis by (simp add: indexCollection_def)
qed

lemma index_file_skipped_db:
  "file_outcome env ex f = Skipped \<Longrightarrow> ix_db (index_file env c ex st f) = ix_db st"
  by (auto simp: index_file_def file_outcome_def Let_def split: option.splits if_splits)

lemma index_files_skipped_db:
  "\<forall>f\<in>set files. file_outcome env ex f = Skipped \<Longrightarrow>
   ix_db (foldl (index_file env c ex) st files) = ix_db st"
  by (induction files arbitrary: st) (auto simp: index_file_skipped_db)

text \<open>
  The pass over a collection in which every matched file is skipped and every stored path
  is matched changes nothing and reports no indexed and no removed document.
\<close>

lemma reindex_unchanged:
  assumes "distinct (map c_name (collections db))" "c \<in> set (collections db)"
    and "\<forall>f\<in>set (glob env (c_path c) (c_mask c)).
           file_outcome env (getDocumentsByCollection db (c_name c)) f = Skipped"
    and "set (map d_path (getDocumentsByCollection db (c_name c))) \<subseteq>
           set (glob env (c_path c) (c_mask c))"
  shows "indexCollection env db (c_name c) =
           Inr (db, \<lparr> indexed = 0, skipped = length (glob env (c_path c) (c_mask c)),
                        removed = 0 \<rparr>)"
proof -
  have r: "filter (\<lambda>p. p \<notin> set (glob env (c_path c) (c_mask c)))
             (new_Set (map d_path (getDocumentsByCollection db (c_name c)))) = []"
    using assms(4) by (auto simp: filter_empty_conv set_new_Set)
  have i: "filter (\<lambda>f. file_outcome env (getDocumentsByCollection db (c_name c)) f = Indexed)
             (glob env (c_path c) (c_mask c)) = []"
    using assms(3) by (auto simp: filter_empty_conv)
  have s: "filter (\<lambda>f. file_outcome env (getDocumentsByCollection db (c_name c)) f = Skipped)
             (glob env (c_path c) (c_mask c)) = glob env (c_path c) (c_mask c)"
    using assms(3) by (intro filter_True) auto
  show ?thesis
    using find_collection_unique[OF assms(1,2)] assms(3)
    by (simp add: indexCollection_def Let_def index_files_counts index_files_skipped_db r i s)
qed

subsection \<open>What a pass stores\<close>

text \<open>
  The loop changes the store for the files whose steps all succeed, and for no other file:
  the store after the loop is the store after \<^verbatim>\<open>addDocument\<close> for each of these files, in
  the order of the list.
\<close>

lemma index_file_db:
  "ix_db (index_file env c ex st f) =
     (if file_outcome env ex f = Indexed then store_file env c (ix_db st) f else ix_db st)"
  by (auto simp: index_file_def file_outcome_def store_file_def indexed_document_def Let_def
      split: option.splits prod.splits)

lemma index_files_db:
  "ix_db (foldl (index_file env c ex) st files) =
     foldl (store_file env c) (ix_db st) (filter (\<lambda>f. file_outcome env ex f = Indexed) files)"
  by (induction files arbitrary: st) (simp_all add: index_file_db)

lemma foldl_if_nonempty: "(if 0 < length xs then foldl f a xs else a) = foldl f a xs"
  by (cases xs) simp_all

lemma indexCollection_store:
  assumes "distinct (map c_name (collections db))" "c \<in> set (collections db)"
  shows "indexCollection env db (c_name c) =
           Inr (foldl (remove_path (getDocumentsByCollection db (c_name c)))
                  (foldl (store_file env c) db
                     (filter (\<lambda>f. file_outcome env (getDocumentsByCollection db (c_name c)) f = Indexed)
                        (glob env (c_path c) (c_mask c))))
                  (filter (\<lambda>p. p \<notin> set (glob env (c_path c) (c_mask c)))
                     (new_Set (map d_path (getDocumentsByCollection db (c_name c))))),
             \<lparr> indexed = length (filter
                  (\<lambda>f. file_outcome env (getDocumentsByCollection db (c_name c)) f = Indexed)
                  (glob env (c_path c) (c_mask c))),
               skipped = length (filter
                  (\<lambda>f. file_outcome env (getDocumentsByCollection db (c_name c)) f = Skipped)
                  (glob env (c_path c) (c_mask c))),
               removed = length (filter (\<lambda>p. p \<notin> set (glob env (c_path c) (c_mask c)))
                  (new_Set (map d_path (getDocumentsByCollection db (c_name c))))) \<rparr>)"
  using find_collection_unique[OF assms(1,2)]
  by (simp add: indexCollection_def Let_def index_files_counts index_files_db foldl_if_nonempty)

text \<open>
  When no two ids clash, the row of every such file is in the store that the pass leaves:
  no later file replaces it and the removal of the unseen paths does not delete it.
\<close>

lemma indexed_document_Indexed:
  "file_outcome env ex f = Indexed \<Longrightarrow> \<exists>d. indexed_document env c f = Some d"
  by (auto simp: file_outcome_def indexed_document_def split: option.splits if_splits)

lemma indexed_document_file_id:
  "indexed_document env c f = Some d \<Longrightarrow> file_id env f = Some (d_id d) \<and> d_path d = f"
  by (auto simp: indexed_document_def file_id_def split: option.splits)

lemma indexed_document_same_id:
  assumes "no_id_clash env ex files" "f \<in> set files" "g \<in> set files"
    and "indexed_document env c f = Some d" "indexed_document env c g = Some e"
    and "d_id e = d_id d"
  shows "e = d"
proof -
  have "file_id env f = Some (d_id d)" "file_id env g = Some (d_id d)"
    using indexed_document_file_id[OF assms(4)] indexed_document_file_id[OF assms(5)] assms(6)
    by simp_all
  moreover have "\<forall>f \<in> set files. \<forall>g \<in> set files.
      file_id env f = file_id env g \<longrightarrow> file_id env f = None \<or> f = g"
    using assms(1) by (simp add: no_id_clash_def)
  ultimately have "f = g" using assms(2,3) by fastforce
  then show ?thesis using assms(4,5) by simp
qed

lemma store_file_documents:
  "indexed_document env c g = Some e \<Longrightarrow>
     documents (store_file env c db g) = filter (\<lambda>x. d_id x \<noteq> d_id e) (documents db) @ [e]"
  by (simp add: store_file_def addDocument_def)

lemma store_file_None: "indexed_document env c g = None \<Longrightarrow> store_file env c db g = db"
  by (simp add: store_file_def)

lemma store_files_member:
  assumes "\<forall>g \<in> set fs. \<forall>e. indexed_document env c g = Some e \<longrightarrow> d_id e = d_id d \<longrightarrow> e = d"
    and "d \<in> set (documents db) \<or> (\<exists>f \<in> set fs. indexed_document env c f = Some d)"
  shows "d \<in> set (documents (foldl (store_file env c) db fs))"
  using assms
proof (induction fs arbitrary: db)
  case Nil
  then show ?case by simp
next
  case (Cons g fs)
  have "d \<in> set (documents (store_file env c db g)) \<or>
        (\<exists>f \<in> set fs. indexed_document env c f = Some d)"
  proof (cases "indexed_document env c g")
    case None
    then show ?thesis using Cons.prems(2) by (auto simp: store_file_None)
  next
    case (Some e)
    show ?thesis
    proof (cases "d_id e = d_id d")
      case True
      then have "e = d" using Cons.prems(1) Some by simp
      then show ?thesis using Some by (simp add: store_file_documents)
    next
      case False
      then show ?thesis using Cons.prems(2) Some by (auto simp: store_file_documents)
    qed
  qed
  moreover have "\<forall>g \<in> set fs. \<forall>e. indexed_document env c g = Some e \<longrightarrow> d_id e = d_id d \<longrightarrow> e = d"
    using Cons.prems(1) by simp
  ultimately show ?case using Cons.IH[of "store_file env c db g"] by simp
qed

lemma remove_paths_keep:
  assumes "d \<in> set (documents db)"
    and "\<forall>p \<in> set ps. \<forall>x. find (\<lambda>y. d_path y = p) ex = Some x \<longrightarrow> d_id x \<noteq> d_id d"
  shows "d \<in> set (documents (foldl (remove_path ex) db ps))"
  using assms
proof (induction ps arbitrary: db)
  case Nil
  then show ?case by simp
next
  case (Cons p ps)
  have "d \<in> set (documents (remove_path ex db p))"
    using Cons.prems by (auto simp: remove_path_def removeDocument_def split: option.splits)
  then show ?case using Cons.IH[of "remove_path ex db p"] Cons.prems(2) by simp
qed

lemma pass_stores_indexed_file:
  assumes "no_id_clash env ex files" "f \<in> set files" "file_outcome env ex f = Indexed"
  shows "\<exists>d. indexed_document env c f = Some d \<and>
             d \<in> set (documents
                    (foldl (remove_path ex)
                       (foldl (store_file env c) db
                          (filter (\<lambda>f. file_outcome env ex f = Indexed) files))
                       (filter (\<lambda>p. p \<notin> set files) ps)))"
proof -
  obtain d where d: "indexed_document env c f = Some d"
    using indexed_document_Indexed[OF assms(3)] by blast
  have fid: "file_id env f = Some (d_id d)" "d_path d = f"
    using indexed_document_file_id[OF d] by simp_all
  have "d \<in> set (documents (foldl (store_file env c) db
                 (filter (\<lambda>f. file_outcome env ex f = Indexed) files)))"
  proof (rule store_files_member)
    show "\<forall>g \<in> set (filter (\<lambda>f. file_outcome env ex f = Indexed) files).
            \<forall>e. indexed_document env c g = Some e \<longrightarrow> d_id e = d_id d \<longrightarrow> e = d"
      using indexed_document_same_id[OF assms(1,2) _ d] by auto
    show "d \<in> set (documents db) \<or>
          (\<exists>f \<in> set (filter (\<lambda>f. file_outcome env ex f = Indexed) files).
             indexed_document env c f = Some d)"
      using assms(2,3) d by auto
  qed
  moreover have "\<forall>p \<in> set (filter (\<lambda>p. p \<notin> set files) ps).
       \<forall>x. find (\<lambda>y. d_path y = p) ex = Some x \<longrightarrow> d_id x \<noteq> d_id d"
  proof (intro ballI allI impI)
    fix p x
    assume p: "p \<in> set (filter (\<lambda>p. p \<notin> set files) ps)"
      and x: "find (\<lambda>y. d_path y = p) ex = Some x"
    have x': "x \<in> set ex" "d_path x = p" using find_SomeD[OF x] by simp_all
    show "d_id x \<noteq> d_id d"
    proof
      assume "d_id x = d_id d"
      then have "file_id env f = Some (d_id x)" using fid(1) by simp
      then have "d_path x = f" using assms(1,2) x'(1) by (auto simp: no_id_clash_def)
      then show False using x'(2) p assms(2) by simp
    qed
  qed
  ultimately show ?thesis using d by (simp add: remove_paths_keep)
qed

section \<open>Properties of the embedding engine\<close>

subsection \<open>The feature vector and its normalisation\<close>

lemma length_foldl_inv:
  assumes "\<And>v x. length (step v x) = length v"
  shows "length (foldl step v xs) = length v"
  using assms by (induction xs arbitrary: v) simp_all

lemma length_write_block: "length (write_block offset features v) = length v"
  unfolding write_block_def by (rule length_foldl_inv) simp

lemma length_createFeatureVector: "length (createFeatureVector lib docs tokens docIndex) = 384"
  by (simp add: createFeatureVector_def Let_def length_write_block length_foldl_inv dimensions_def)

lemma nth_write_block:
  assumes "j < length v"
  shows "write_block offset features v ! j =
          (if offset \<le> j \<and> j < offset + min 64 (length features) then features ! (j - offset)
           else v ! j)"
proof -
  have "foldl (\<lambda>v i. v[offset + i := features ! i]) v [0..<n] ! j =
          (if offset \<le> j \<and> j < offset + n then features ! (j - offset) else v ! j)" for n
  proof (induction n)
    case 0
    then show ?case by simp
  next
    case (Suc n)
    have len: "length (foldl (\<lambda>v i. v[offset + i := features ! i]) v [0..<n]) = length v"
      by (rule length_foldl_inv) simp
    show ?case
    proof (cases "j = offset + n")
      case True
      then show ?thesis using assms by (simp add: len)
    next
      case False
      then show ?thesis using Suc assms by (auto simp: nth_list_update len)
    qed
  qed
  then show ?thesis by (simp add: write_block_def)
qed

lemma foldl_sum: "foldl (\<lambda>sum val. sum + f val) (a::real) xs = a + sum_list (map f xs)"
  by (induction xs arbitrary: a) (simp_all add: algebra_simps)

lemma join_space_not_Nil: "tokens \<noteq> [] \<Longrightarrow> [] \<notin> set tokens \<Longrightarrow> join_space tokens \<noteq> []"
  by (induction tokens rule: join_space.induct) auto

text \<open>The character counts.\<close>

lemma map_get_count_up:
  "map_of (count_up m k) = (map_of m)(k \<mapsto> (case map_of m k of None \<Rightarrow> 0 | Some n \<Rightarrow> n) + 1)"
  by (simp add: count_up_def map_of_map_set map_get_def)

lemma map_set_not_Nil: "map_set m k v \<noteq> []"
  by (induction m k v rule: map_set.induct) auto

lemma count_up_positive:
  assumes "\<forall>p\<in>set m. 0 < snd p" "distinct (map fst m)"
  shows "(\<forall>p\<in>set (count_up m k). 0 < snd p) \<and> distinct (map fst (count_up m k)) \<and> count_up m k \<noteq> []"
proof -
  have d: "distinct (map fst (count_up m k))"
    using assms(2) by (simp add: count_up_def distinct_map_set)
  have ne: "count_up m k \<noteq> []"
    unfolding count_up_def by (rule map_set_not_Nil)
  have "0 < n" if "(a, n) \<in> set (count_up m k)" for a n
  proof -
    from that d have "map_of (count_up m k) a = Some n" by simp
    then have "((map_of m)(k \<mapsto> (case map_of m k of None \<Rightarrow> 0 | Some n \<Rightarrow> n) + 1)) a = Some n"
      by (simp add: map_get_count_up)
    then show ?thesis
    proof (cases "a = k")
      case True
      with \<open>((map_of m)(k \<mapsto> (case map_of m k of None \<Rightarrow> 0 | Some n \<Rightarrow> n) + 1)) a = Some n\<close>
      show ?thesis by auto
    next
      case False
      with \<open>((map_of m)(k \<mapsto> (case map_of m k of None \<Rightarrow> 0 | Some n \<Rightarrow> n) + 1)) a = Some n\<close>
      have "map_of m a = Some n" by simp
      then have "(a, n) \<in> set m" by (rule map_of_SomeD)
      with assms(1) show ?thesis by auto
    qed
  qed
  with d ne show ?thesis by auto
qed

lemma charFreq_positive:
  assumes "\<forall>p\<in>set m. 0 < snd p" "distinct (map fst m)"
  shows "(\<forall>p\<in>set (foldl count_up m ks). 0 < snd p) \<and> (ks \<noteq> [] \<longrightarrow> foldl count_up m ks \<noteq> [])"
  using assms
proof (induction ks arbitrary: m)
  case Nil
  then show ?case by simp
next
  case (Cons k ks)
  note c = count_up_positive[OF Cons.prems, of k]
  from c have ih: "(\<forall>p\<in>set (foldl count_up (count_up m k) ks). 0 < snd p) \<and>
      (ks \<noteq> [] \<longrightarrow> foldl count_up (count_up m k) ks \<noteq> [])"
    by (intro Cons.IH) auto
  show ?case
  proof (cases ks)
    case Nil
    with c show ?thesis by simp
  next
    case (Cons a list)
    with ih show ?thesis by simp
  qed
qed

lemma generateCharFeatures_first:
  assumes "text \<noteq> []"
  shows "0 < generateCharFeatures text ! 0" and "generateCharFeatures text \<noteq> []"
proof -
  define charFreq where "charFreq = foldl count_up [] (map (\<lambda>c. [c]) text)"
  define sortedChars where "sortedChars = sort_key (\<lambda>entry. - int (snd entry)) charFreq"
  have cf: "(\<forall>p\<in>set charFreq. 0 < snd p)" "charFreq \<noteq> []"
    using charFreq_positive[of "[]" "map (\<lambda>c. [c]) text"] assms by (simp_all add: charFreq_def)
  have "length sortedChars = length charFreq" by (simp add: sortedChars_def)
  with cf(2) have sc1: "sortedChars \<noteq> []" by auto
  have sc2: "\<forall>p\<in>set sortedChars. 0 < snd p" using cf(1) by (simp add: sortedChars_def)
  note sc = sc1 sc2
  then obtain p ps where p: "sortedChars = p # ps" by (cases sortedChars) auto
  with sc have pos: "0 < snd p" by simp
  have "generateCharFeatures text ! 0 = real (snd p) / real (length text)"
    by (simp add: generateCharFeatures_def Let_def charFreq_def[symmetric] sortedChars_def[symmetric] p)
  with pos assms show "0 < generateCharFeatures text ! 0" by simp
  show "generateCharFeatures text \<noteq> []"
    by (simp add: generateCharFeatures_def Let_def)
qed

lemma createFeatureVector_256:
  assumes "tokens \<noteq> []" "[] \<notin> set tokens"
  shows "0 < createFeatureVector lib docs tokens docIndex ! 256"
proof -
  define v2 where "v2 = foldl (\<lambda>v bigram.
                       (let hash = hashFeature lib bigram mod 128
                        in v[128 + hash := v ! (128 + hash) + 1 / real (length (generateNGrams tokens 2))]))
                     (foldl (\<lambda>v entry. v[fst entry := tfidf lib docs (fst (snd entry)) docIndex])
                        (replicate dimensions 0)
                        (enumerate 0 (take 128 (foldl (\<lambda>m token. count_up m (stem lib token)) [] tokens))))
                     (generateNGrams tokens 2)"
  define cf where "cf = generateCharFeatures (join_space tokens)"
  have l2: "length v2 = 384"
    by (simp add: v2_def length_foldl_inv dimensions_def Let_def)
  have cv: "createFeatureVector lib docs tokens docIndex =
      write_block 320 (generateSemanticFeatures tokens) (write_block 256 cf v2)"
    by (simp add: createFeatureVector_def Let_def v2_def cf_def)
  have nonempty: "join_space tokens \<noteq> []" using assms by (rule join_space_not_Nil)
  have cf0: "0 < cf ! 0" "cf \<noteq> []"
    using generateCharFeatures_first[OF nonempty] by (simp_all add: cf_def)
  have "createFeatureVector lib docs tokens docIndex ! 256 = write_block 256 cf v2 ! 256"
    unfolding cv by (subst nth_write_block) (simp_all add: length_write_block l2)
  also have "\<dots> = cf ! 0"
    using cf0(2) by (subst nth_write_block) (auto simp: l2 simp flip: length_greater_0_conv)
  finally show ?thesis using cf0(1) by simp
qed

lemma sum_squares_pos:
  fixes v :: "real list"
  assumes "i < length v" "0 < v ! i"
  shows "0 < sum_list (map (\<lambda>x. x * x) v)"
proof -
  have "v ! i \<in> set v" using assms(1) by simp
  then have "(v ! i) * (v ! i) \<le> sum_list (map (\<lambda>x. x * x) v)"
    by (intro member_le_sum_list) auto
  moreover have "0 < (v ! i) * (v ! i)" using assms(2) by simp
  ultimately show ?thesis by linarith
qed

lemma l2_norm_normalizeVector:
  assumes "0 < sum_list (map (\<lambda>x. x * x) v)"
  shows "l2_norm (normalizeVector v) = 1"
proof -
  define S where "S = sum_list (map (\<lambda>x. x * x) v)"
  define m where "m = sqrt S"
  have S: "0 < S" using assms by (simp add: S_def)
  then have m: "0 < m" "m * m = S" by (simp_all add: m_def)
  have mag: "sqrt (foldl (\<lambda>sum val. sum + val * val) 0 v) = m"
    by (simp add: foldl_sum m_def S_def)
  have nv: "normalizeVector v = map (\<lambda>val. val / m) v"
    using m(1) by (simp add: normalizeVector_def mag Let_def)
  have "(\<Sum>x\<leftarrow>map (\<lambda>val. val / m) v. x\<^sup>2) = (\<Sum>x\<leftarrow>v. x * x / S)"
    using m by (simp add: comp_def power2_eq_square)
  also have "\<dots> = (\<Sum>x\<leftarrow>v. x * x) / S"
    by (induction v) (simp_all add: add_divide_distrib)
  also have "\<dots> = 1" using S by (simp add: S_def)
  finally show ?thesis by (simp add: l2_norm_def nv)
qed

subsection \<open>The call of the tokenizer\<close>

text \<open>
  With the package as it is published, \<^const>\<open>embed\<close> throws for every text and every
  engine, after \<^verbatim>\<open>initialize\<close> and before it touches the corpus.
\<close>

lemma embed_published:
  assumes "as_published lib"
  shows "fst (embed lib st text) =
           Inl (TypeError ''natural.WordTokenizer.tokenize is not a function'')"
    and "tfidf_documents (snd (embed lib st text)) = tfidf_documents st"
    and "initialized (snd (embed lib st text))"
  using assms by (simp_all add: as_published_def embed_def Let_def initialize_def)

lemma embedBatch_published:
  assumes "as_published lib"
  shows "fst (embedBatch lib st (text # texts)) =
           Inl (TypeError ''natural.WordTokenizer.tokenize is not a function'')"
    and "tfidf_documents (snd (embedBatch lib st texts)) = tfidf_documents st"
proof -
  obtain r st1 where e: "embed lib st text = (r, st1)" by (cases "embed lib st text")
  have "r = Inl (TypeError ''natural.WordTokenizer.tokenize is not a function'')"
    using embed_published(1)[OF assms, of st "text"] e by simp
  then show "fst (embedBatch lib st (text # texts)) =
           Inl (TypeError ''natural.WordTokenizer.tokenize is not a function'')"
    using e by simp
  show "tfidf_documents (snd (embedBatch lib st texts)) = tfidf_documents st"
  proof (cases texts)
    case Nil
    then show ?thesis by simp
  next
    case (Cons t ts)
    obtain r' st2 where e': "embed lib st t = (r', st2)" by (cases "embed lib st t")
    have "r' = Inl (TypeError ''natural.WordTokenizer.tokenize is not a function'')"
      "tfidf_documents st2 = tfidf_documents st"
      using embed_published(1,2)[OF assms, of st t] e' by simp_all
    then show ?thesis using Cons e' by simp
  qed
qed

subsection \<open>The body after the call of the tokenizer\<close>

text \<open>
  The rest of this section is about a package in which \<^verbatim>\<open>natural.WordTokenizer.tokenize\<close>
  is a function, which the published package is not: the vector that the rest of the body
  of \<^const>\<open>embed\<close> then returns has length 1 or is the zero vector, and the corpus is
  restored.
\<close>

lemma embed_tokens:
  assumes "WordTokenizer_tokenize lib = Some tokenize" "tokenize (preprocessText text) = tokens"
  shows "fst (embed lib st text) =
           Inr (if tokens = [] then replicate 384 0
                else normalizeVector
                       (createFeatureVector lib (tfidf_documents st @ [tokens]) tokens
                          (length (tfidf_documents st))))"
  using assms by (simp add: embed_def Let_def initialize_def dimensions_def)

lemma length_normalizeVector: "length (normalizeVector v) = length v"
  by (simp add: normalizeVector_def Let_def)

lemma embed_unit_when_function:
  assumes "WordTokenizer_tokenize lib = Some tokenize"
    and "tokenize (preprocessText text) \<noteq> []" "[] \<notin> set (tokenize (preprocessText text))"
  shows "\<exists>v. fst (embed lib st text) = Inr v \<and> length v = 384 \<and> l2_norm v = 1"
proof -
  define tokens where "tokens = tokenize (preprocessText text)"
  define v where "v = createFeatureVector lib (tfidf_documents st @ [tokens]) tokens
                      (length (tfidf_documents st))"
  have t: "tokens \<noteq> []" "[] \<notin> set tokens" using assms(2,3) by (simp_all add: tokens_def)
  have e: "fst (embed lib st text) = Inr (normalizeVector v)"
    using t(1) embed_tokens[OF assms(1), of "text" tokens st] by (simp add: tokens_def v_def)
  have lv: "length v = 384" unfolding v_def by (rule length_createFeatureVector)
  have "0 < v ! 256" unfolding v_def using t by (rule createFeatureVector_256)
  then have "0 < sum_list (map (\<lambda>x. x * x) v)"
    using sum_squares_pos[of 256 v] lv by simp
  then have "l2_norm (normalizeVector v) = 1" by (rule l2_norm_normalizeVector)
  then show ?thesis by (simp add: e length_normalizeVector lv)
qed

lemma embed_zero_when_function:
  assumes "WordTokenizer_tokenize lib = Some tokenize" "tokenize (preprocessText text) = []"
  shows "fst (embed lib st text) = Inr (replicate 384 0)"
  using embed_tokens[OF assms(1), of "text" "[]" st] assms(2) by simp

lemma splice1_last: "splice1 (xs @ [x]) (length (xs @ [x]) - 1) = xs"
  by (simp add: splice1_def)

lemma embed_documents: "tfidf_documents (snd (embed lib st text)) = tfidf_documents st"
  by (simp add: embed_def Let_def initialize_def splice1_def split: option.splits)

lemma embed_initialized: "initialized (snd (embed lib st text))"
  by (simp add: embed_def Let_def initialize_def split: option.splits)

lemma embed_vector_cong:
  "tfidf_documents st = tfidf_documents st' \<Longrightarrow> fst (embed lib st text) = fst (embed lib st' text)"
  by (simp add: embed_def Let_def initialize_def split: option.splits)

lemma embedBatch_documents:
  "tfidf_documents (snd (embedBatch lib st texts)) = tfidf_documents st"
proof (induction texts arbitrary: st)
  case Nil
  then show ?case by simp
next
  case (Cons t ts)
  obtain r st1 where e: "embed lib st t = (r, st1)" by (cases "embed lib st t")
  have d1: "tfidf_documents st1 = tfidf_documents st"
    using embed_documents[of lib st t] e by simp
  show ?case
  proof (cases r)
    case (Inl err)
    then show ?thesis using e d1 by simp
  next
    case (Inr v)
    obtain r2 st2 where b: "embedBatch lib st1 ts = (r2, st2)" by (cases "embedBatch lib st1 ts")
    have "tfidf_documents st2 = tfidf_documents st1"
      using Cons.IH[of st1] b by simp
    then show ?thesis using e Inr b d1 by (cases r2) simp_all
  qed
qed

lemma embed_history_when_function:
  "fst (embed lib (snd (embedBatch lib st before)) text) = fst (embed lib st text)"
  by (rule embed_vector_cong) (rule embedBatch_documents)

section \<open>Properties of the searches\<close>

subsection \<open>What the keyword search returns\<close>

text \<open>
  \<^const>\<open>textSearch\<close> throws when \<^verbatim>\<open>MATCH\<close> rejects the query.  When it returns, the
  normalised scores of the returned list ascend.
\<close>

lemma textSearch_rejected:
  "\<not> fts_accepts fts query \<Longrightarrow>
     textSearch fts db query options = Inl (SqliteError ''fts5: syntax error'')"
  by (simp add: textSearch_def)

lemma sorted_map_mono:
  fixes f :: "'a \<Rightarrow> real" and g :: "real \<Rightarrow> real"
  assumes "sorted (map f xs)" "\<And>x y. x \<le> y \<Longrightarrow> g x \<le> g y"
  shows "sorted (map (\<lambda>x. g (f x)) xs)"
  using assms by (induction xs) auto

lemma textSearch_ascending:
  assumes "textSearch fts db query options = Inr rs"
  shows "sorted (map rscore rs)"
proof -
  define join where "join = concat (map (\<lambda>f. map (\<lambda>d. (d, f))
      (filter (\<lambda>d. text_as_integer fts (d_id d) = Some (rowid fts f)) (documents db)))
      (filter (\<lambda>f. fts_match fts query f) (documents db)))"
  define rows where "rows = take (opt_limit options)
      (sort_key (\<lambda>row. - bm25 fts query (snd row))
        (filter (\<lambda>row. bm25 fts query (snd row) \<ge> - opt_minScore options)
          (filter (\<lambda>row. collection_filter (opt_collection options) (fst row)) join)))"
  have "sorted (map (\<lambda>row. - bm25 fts query (snd row)) rows)"
    unfolding rows_def take_map[symmetric] by (intro sorted_wrt_take) simp
  then have "sorted (map (\<lambda>row. max 0 (min 1 ((- bm25 fts query (snd row)) / 10))) rows)"
    by (rule sorted_map_mono[where g = "\<lambda>x. max 0 (min 1 (x / 10))"]) auto
  moreover have "map rscore rs =
      map (\<lambda>row. max 0 (min 1 ((- bm25 fts query (snd row)) / 10))) rows"
    using assms
    by (auto simp: textSearch_def Let_def rows_def join_def comp_def split: if_splits)
  ultimately show ?thesis by simp
qed

subsection \<open>Ids of the result lists\<close>

text \<open>
  Ids and row numbers are keys of \<^verbatim>\<open>documents\<close>, so no id occurs twice in a list that a
  search returns.
\<close>

lemma distinct_map_filter_key:
  "distinct (map f xs) \<Longrightarrow> map f (filter (\<lambda>x. f x = k) xs) = (if k \<in> f ` set xs then [k] else [])"
  by (induction xs) (auto simp: image_iff)

lemma distinct_map_take: "distinct (map f xs) \<Longrightarrow> distinct (map f (take n xs))"
  by (metis distinct_take take_map)

lemma rowid_join_ids:
  fixes docs :: "document_row list" and r :: "document_row \<Rightarrow> int"
  assumes "distinct (map d_id docs)" "distinct (map r fs)"
  shows "distinct (map (\<lambda>row. d_id (fst row))
           (concat (map (\<lambda>f. map (\<lambda>d. (d, f)) (filter (\<lambda>d. g (d_id d) = Some (r f)) docs)) fs)))"
  using assms(2)
proof (induction fs)
  case Nil
  then show ?case by simp
next
  case (Cons f fs)
  have block: "distinct (map d_id (filter (\<lambda>d. g (d_id d) = Some (r f)) docs))"
    using assms(1) by (rule distinct_map_filter)
  have rest: "distinct (map (\<lambda>row. d_id (fst row))
           (concat (map (\<lambda>f. map (\<lambda>d. (d, f)) (filter (\<lambda>d. g (d_id d) = Some (r f)) docs)) fs)))"
    using Cons by simp
  have apart: "\<forall>f' \<in> set fs. r f' \<noteq> r f"
    using Cons.prems by (auto simp: image_iff)
  show ?case
    using block rest apart by (auto simp: comp_def)
qed

lemma textSearch_ids:
  assumes "distinct (map d_id (documents db))" "distinct (map (rowid fts) (documents db))"
    and "textSearch fts db query options = Inr rs"
  shows "distinct (map rid rs)"
proof -
  have fs: "distinct (map (rowid fts) (filter (\<lambda>f. fts_match fts query f) (documents db)))"
    using assms(2) by (rule distinct_map_filter)
  note j = rowid_join_ids[OF assms(1) fs, of "text_as_integer fts"]
  have "distinct (map (\<lambda>row. d_id (fst row)) (take n (sort_key k (filter P2 (filter P1
          (concat (map (\<lambda>f. map (\<lambda>d. (d, f))
             (filter (\<lambda>d. text_as_integer fts (d_id d) = Some (rowid fts f)) (documents db)))
             (filter (\<lambda>f. fts_match fts query f) (documents db)))))))))"
    for n P1 P2 and k :: "document_row \<times> document_row \<Rightarrow> real"
    using j by (intro distinct_map_take) (simp add: distinct_map_sort_key distinct_map_filter)
  then show ?thesis
    using assms(3) by (auto simp: textSearch_def Let_def comp_def split: if_splits)
qed

lemma array_map_Inr:
  "array_map f xs = Inr ys \<Longrightarrow> list_all2 (\<lambda>x y. f x = Inr y) xs ys"
  by (induction xs arbitrary: ys) (auto split: sum.splits)

lemma vectorSearch_ids:
  assumes "distinct (map d_id (documents db))" "distinct (map e_document_id (embeddings db))"
    and "fst (vectorSearch fts lib st db query options) = Inr rs"
  shows "distinct (map rid rs)"
proof -
  obtain qv st' where em: "embed lib st query = (Inr qv, st')"
    using assms(3) by (cases "embed lib st query") (auto simp: vectorSearch_def split: sum.splits)
  define sc :: "embedding_row \<Rightarrow> real"
    where "sc = (\<lambda>e. 1 / (1 + vector_distance_cosine (e_embedding e) qv))"
  define rows where "rows = take (opt_limit options) (sort_key (\<lambda>row. - snd row)
      (filter (\<lambda>row. collection_filter (opt_collection options) (fst row))
        (filter (\<lambda>row. snd row \<ge> opt_minScore options)
          (concat (map (\<lambda>e. map (\<lambda>d. (d, sc e))
             (filter (\<lambda>d. d_id d = e_document_id e) (documents db))) (embeddings db))))))"
  have join: "map (\<lambda>row. d_id (fst row))
          (concat (map (\<lambda>e. map (\<lambda>d. (d, sc e)) (filter (\<lambda>d. d_id d = e_document_id e) docs)) es))
        = filter (\<lambda>k. k \<in> d_id ` set docs) (map e_document_id es)"
    if "distinct (map d_id docs)" for docs :: "document_row list" and es
    using distinct_map_filter_key[OF that]
    by (induction es) (auto simp: comp_def)
  have d0: "distinct (map (\<lambda>row. d_id (fst row))
          (concat (map (\<lambda>e. map (\<lambda>d. (d, sc e))
             (filter (\<lambda>d. d_id d = e_document_id e) (documents db))) (embeddings db))))"
    unfolding join[OF assms(1)] using assms(2) by simp
  have dr: "distinct (map (\<lambda>row. d_id (fst row)) rows)"
    unfolding rows_def using d0
    by (intro distinct_map_take) (simp add: distinct_map_sort_key distinct_map_filter)
  have "array_map
          (\<lambda>row. case extractSnippet fts (d_content (fst row)) query of
                   Inl e \<Rightarrow> Inl e
                 | Inr snippet \<Rightarrow>
                     Inr \<lparr> rid = d_id (fst row), rpath = d_path (fst row),
                           rtitle = d_title (fst row), rcollection = d_collection (fst row),
                           rsnippet = snippet, rscore = snd row \<rparr>)
          rows = Inr rs"
    using assms(3) em by (simp add: vectorSearch_def Let_def rows_def sc_def)
  then have "list_all2 (\<lambda>row r. rid r = d_id (fst row)) rows rs"
    by (auto dest!: array_map_Inr elim!: list_all2_mono split: sum.splits)
  then have "map rid rs = map (\<lambda>row. d_id (fst row)) rows"
    by (induction rule: list_all2_induct) simp_all
  then show ?thesis using dr by simp
qed

subsection \<open>Fused scores stay below the threshold\<close>

lemma fuseResults_bound:
  assumes "distinct (map rid T)" "distinct (map rid V)" "r \<in> set (fuseResults T V q)"
  shows "rscore r = boosted_sum (rank_of (rid r) (map rid T)) (rank_of (rid r) (map rid V))"
    and "rscore r \<le> 3 / 61 * 1.2 * 1.1"
proof -
  have nz: "rank_of d xs \<noteq> Some 0" for d xs
    using rank_of_pos[of d xs 0] by auto
  note e = fuseResults_entries(1)[OF assms]
  show "rscore r = boosted_sum (rank_of (rid r) (map rid T)) (rank_of (rid r) (map rid V))"
    using e fused_score_unclamped[OF nz nz] by simp
  then show "rscore r \<le> 3 / 61 * 1.2 * 1.1"
    using boosted_sum_bounds(2)[OF nz nz] by simp
qed

lemma fused_filter_empty:
  assumes "distinct (map rid T)" "distinct (map rid V)" "0.065 \<le> m"
  shows "filter (\<lambda>result. rscore result \<ge> m) (fuseResults T V q) = []"
proof -
  have "\<not> m \<le> rscore r" if "r \<in> set (fuseResults T V q)" for r
  proof -
    have "rscore r \<le> 3 / 61 * 1.2 * 1.1" using fuseResults_bound(2)[OF assms(1,2) that] .
    also have "\<dots> < (0.065::real)" by simp
    finally show ?thesis using assms(3) by simp
  qed
  then show ?thesis by (simp add: filter_empty_conv)
qed

lemma hybridSearch_cases:
  "fst (hybridSearch fts lib st db query options) =
     (let sub = \<lparr> opt_limit = opt_limit options * 2,
                  opt_collection = opt_collection options, opt_minScore = 0 \<rparr>
      in case textSearch fts db query sub of
           Inl e \<Rightarrow> Inl e
         | Inr T \<Rightarrow>
             (case fst (vectorSearch fts lib st db query sub) of
                Inl e \<Rightarrow> Inl e
              | Inr V \<Rightarrow>
                  Inr (take (opt_limit options)
                         (filter (\<lambda>result. rscore result \<ge> opt_minScore options)
                            (fuseResults T V query)))))"
  by (simp add: hybridSearch_def Let_def case_prod_beta split: sum.splits)

lemma hybridSearch_never_returns_a_result:
  assumes "primary_keys db" "distinct (map (rowid fts) (documents db))"
    and "0.065 \<le> opt_minScore options"
  shows "(\<exists>e. fst (hybridSearch fts lib st db query options) = Inl e) \<or>
         fst (hybridSearch fts lib st db query options) = Inr []"
proof -
  define sub where "sub = \<lparr> opt_limit = opt_limit options * 2,
      opt_collection = opt_collection options, opt_minScore = 0 \<rparr>"
  show ?thesis
  proof (cases "textSearch fts db query sub")
    case (Inl e)
    then show ?thesis by (simp add: hybridSearch_cases sub_def)
  next
    case T: (Inr T)
    show ?thesis
    proof (cases "fst (vectorSearch fts lib st db query sub)")
      case (Inl e)
      then show ?thesis using T by (simp add: hybridSearch_cases sub_def)
    next
      case V: (Inr V)
      have dT: "distinct (map rid T)"
        using assms(1,2) T by (intro textSearch_ids[of db fts query sub]) (simp_all add: primary_keys_def)
      have dV: "distinct (map rid V)"
        using assms(1) V by (intro vectorSearch_ids[of db fts lib st query sub]) (simp_all add: primary_keys_def)
      show ?thesis
        using T V fused_filter_empty[OF dT dV assms(3)]
        by (simp add: hybridSearch_cases sub_def)
    qed
  qed
qed

text \<open>
  With the package as it is published, \<^const>\<open>vectorSearch\<close> and \<^const>\<open>hybridSearch\<close> throw
  for every query: the exception of SQLite when \<^verbatim>\<open>MATCH\<close> rejects the query, the
  \<^verbatim>\<open>TypeError\<close> of \<^const>\<open>embed\<close> otherwise.
\<close>

lemma vectorSearch_published:
  assumes "as_published lib"
  shows "fst (vectorSearch fts lib st db query options) =
           Inl (TypeError ''natural.WordTokenizer.tokenize is not a function'')"
proof -
  obtain r st' where e: "embed lib st query = (r, st')" by (cases "embed lib st query")
  have "r = Inl (TypeError ''natural.WordTokenizer.tokenize is not a function'')"
    using embed_published(1)[OF assms, of st query] e by simp
  then show ?thesis using e by (simp add: vectorSearch_def)
qed

lemma hybridSearch_published:
  assumes "as_published lib"
  shows "fst (hybridSearch fts lib st db query options) =
           (if fts_accepts fts query
            then Inl (TypeError ''natural.WordTokenizer.tokenize is not a function'')
            else Inl (SqliteError ''fts5: syntax error''))"
proof (cases "fts_accepts fts query")
  case True
  then obtain T where "textSearch fts db query \<lparr> opt_limit = opt_limit options * 2,
      opt_collection = opt_collection options, opt_minScore = 0 \<rparr> = Inr T"
    by (simp add: textSearch_def Let_def)
  then show ?thesis
    using True vectorSearch_published[OF assms]
    by (simp add: hybridSearch_cases)
next
  case False
  then show ?thesis
    by (simp add: hybridSearch_cases textSearch_rejected)
qed

text \<open>
  When nothing throws, that is with a package in which \<^verbatim>\<open>natural.WordTokenizer.tokenize\<close>
  is a function, a query that \<^verbatim>\<open>MATCH\<close> accepts and snippets that \<^verbatim>\<open>new RegExp\<close> accepts,
  the call with such a \<^verbatim>\<open>minScore\<close> returns the empty list.
\<close>

lemma array_map_total:
  assumes "\<forall>x \<in> set xs. \<exists>y. f x = Inr y"
  shows "\<exists>ys. array_map f xs = Inr ys"
  using assms by (induction xs) auto

lemma embed_returns_when_function:
  "WordTokenizer_tokenize lib = Some tokenize \<Longrightarrow> \<exists>v. fst (embed lib st text) = Inr v"
  by (simp add: embed_def Let_def)

lemma vectorSearch_returns:
  assumes "WordTokenizer_tokenize lib = Some tokenize"
    and "\<forall>d \<in> set (documents db). \<exists>s. extractSnippet fts (d_content d) query = Inr s"
  shows "\<exists>V. fst (vectorSearch fts lib st db query options) = Inr V"
proof -
  obtain qv st' where em: "embed lib st query = (Inr qv, st')"
    using embed_returns_when_function[OF assms(1), of st query]
    by (cases "embed lib st query") auto
  define rows where "rows = take (opt_limit options) (sort_key (\<lambda>row. - snd row)
      (filter (\<lambda>row. collection_filter (opt_collection options) (fst row))
        (filter (\<lambda>row. snd row \<ge> opt_minScore options)
          (concat (map (\<lambda>e. map (\<lambda>d. (d, 1 / (1 + vector_distance_cosine (e_embedding e) qv)))
             (filter (\<lambda>d. d_id d = e_document_id e) (documents db))) (embeddings db))))))"
  have "fst row \<in> set (documents db)" if "row \<in> set rows" for row
  proof -
    have "row \<in> set (concat (map (\<lambda>e. map (\<lambda>d. (d, 1 / (1 + vector_distance_cosine (e_embedding e) qv)))
             (filter (\<lambda>d. d_id d = e_document_id e) (documents db))) (embeddings db)))"
      using in_set_takeD[OF that[unfolded rows_def]] by simp
    then show ?thesis by auto
  qed
  then have "\<forall>row \<in> set rows. \<exists>y.
      (case extractSnippet fts (d_content (fst row)) query of
         Inl e \<Rightarrow> Inl e
       | Inr snippet \<Rightarrow>
           Inr \<lparr> rid = d_id (fst row), rpath = d_path (fst row),
                 rtitle = d_title (fst row), rcollection = d_collection (fst row),
                 rsnippet = snippet, rscore = snd row \<rparr>) = Inr y"
    using assms(2) by fastforce
  from array_map_total[OF this]
  show ?thesis using em by (simp add: vectorSearch_def Let_def rows_def)
qed

lemma hybridSearch_returns_empty:
  assumes "primary_keys db" "distinct (map (rowid fts) (documents db))"
    and "0.065 \<le> opt_minScore options"
    and "fts_accepts fts query" "WordTokenizer_tokenize lib = Some tokenize"
    and "\<forall>d \<in> set (documents db). \<exists>s. extractSnippet fts (d_content d) query = Inr s"
  shows "fst (hybridSearch fts lib st db query options) = Inr []"
proof -
  define sub where "sub = \<lparr> opt_limit = opt_limit options * 2,
      opt_collection = opt_collection options, opt_minScore = 0 \<rparr>"
  obtain T where T: "textSearch fts db query sub = Inr T"
    using assms(4) by (simp add: textSearch_def Let_def)
  obtain V where V: "fst (vectorSearch fts lib st db query sub) = Inr V"
    using vectorSearch_returns[OF assms(5,6)] by blast
  have "\<exists>rs. fst (hybridSearch fts lib st db query options) = Inr rs"
    using T V by (simp add: hybridSearch_cases sub_def)
  then show ?thesis
    using hybridSearch_never_returns_a_result[OF assms(1,2,3), of lib st query] by auto
qed

section \<open>The claims\<close>

text \<open>
  Claim C1 says that \<^verbatim>\<open>textSearch\<close> returns the matching documents with the most relevant
  first, gives each the score \<open>clamp ((- raw) / 10) 0 1\<close>, and returns only rows whose score
  is at least \<^verbatim>\<open>minScore\<close>.  The code computes that score, but it orders by the raw value
  descending and keeps the rows with \<open>raw \<ge> - minScore\<close>.  With three matching documents
  of raw values \<open>-8\<close>, \<open>-0.4\<close> and \<open>-0.1\<close>, that is scores \<open>0.8\<close>, \<open>0.04\<close> and \<open>0.01\<close>,
  stored under ids that the join pairs with their own index rows:
  for \<^verbatim>\<open>minScore = 0.5\<close> the call returns the rows of score \<open>0.01\<close> and \<open>0.04\<close>, in this
  order, and not the row of score \<open>0.8\<close>; with the default options it returns nothing.
  The same three documents stored under ids that are no numerals are paired with no index
  row by the join \<^verbatim>\<open>ON d.id = fts.rowid\<close>: the call returns nothing with the default
  options, and nothing with a \<^verbatim>\<open>minScore\<close> that every row passes.
\<close>

theorem textSearch_drops_best_match:
  "map_sum id (map (\<lambda>r. (rid r, rscore r)))
     (textSearch fts3 db_paired ''api''
        \<lparr> opt_limit = 5, opt_collection = None, opt_minScore = 0.5 \<rparr>)
     = Inr [(''00000003'', 0.01), (''00000002'', 0.04)] \<and>
   textSearch fts3 db_paired ''api'' default_options = Inr [] \<and>
   textSearch fts3 db3 ''api'' default_options = Inr [] \<and>
   textSearch fts3 db3 ''api'' \<lparr> opt_limit = 5, opt_collection = None, opt_minScore = 10 \<rparr>
     = Inr []"
  by (simp add: textSearch_def fts3_def db_paired_def db3_def docA_def docB_def docC_def
      default_options_def collection_filter_def is_digit_def read_digits_def)

text \<open>
  Claim C2.  For keyword and vector result lists in which every document id occurs at most
  once per list (ids are primary keys, so the searches return such lists), the fused list
  holds exactly the documents of the two lists, each once, and the score of each document
  is: twice \<open>1 / (60 + r)\<close> for its 1-based keyword rank \<open>r\<close> if it has one, plus
  \<open>1 / (60 + r)\<close> for its 1-based vector rank if it has one; times 1.2 when it is in both
  lists; times 1.1 when it is first in either list; clamped to the unit interval.
\<close>

theorem fuseResults_scores:
  assumes "distinct (map rid textResults)" and "distinct (map rid vectorResults)"
  shows "rid ` set (fuseResults textResults vectorResults query) =
           rid ` set textResults \<union> rid ` set vectorResults \<and>
         distinct (map rid (fuseResults textResults vectorResults query)) \<and>
         (\<forall>r \<in> set (fuseResults textResults vectorResults query).
            rscore r = fused_score (rank_of (rid r) (map rid textResults))
                                   (rank_of (rid r) (map rid vectorResults)))"
  using fuseResults_ids[OF assms] fuseResults_entries(1)[OF assms] by blast

theorem fuseResults_scores_witness:
  "distinct (map rid [doc1, doc2]) \<and> distinct (map rid [doc2, doc3]) \<and>
   rid ` set (fuseResults [doc1, doc2] [doc2, doc3] ''q'') =
     rid ` set [doc1, doc2] \<union> rid ` set [doc2, doc3] \<and>
   distinct (map rid (fuseResults [doc1, doc2] [doc2, doc3] ''q'')) \<and>
   list_all (\<lambda>r. rscore r = fused_score (rank_of (rid r) (map rid [doc1, doc2]))
                                        (rank_of (rid r) (map rid [doc2, doc3])))
     (fuseResults [doc1, doc2] [doc2, doc3] ''q'')"
proof -
  have h: "distinct (map rid [doc1, doc2])" "distinct (map rid [doc2, doc3])"
    by (simp_all add: doc1_def doc2_def doc3_def)
  show ?thesis unfolding list_all_iff using h fuseResults_scores[OF h, of "''q''"] by blast
qed

text \<open>
  Claim C3.  A document that is in the keyword list and in the vector list gets a strictly
  higher fused score than it gets, at the same rank, when it is in the keyword list only,
  and than it gets when it is in the vector list only.
\<close>

theorem both_lists_beat_one:
  assumes "distinct (map rid T)" and "distinct (map rid V)"
    and "distinct (map rid T')" and "distinct (map rid V')"
    and "d \<in> rid ` set T" and "d \<in> rid ` set V"
    and "d \<notin> rid ` set T'" and "d \<notin> rid ` set V'"
  shows "\<exists>both text_only vector_only.
           score_of d (fuseResults T V q) = Some both \<and>
           score_of d (fuseResults T V' q) = Some text_only \<and>
           score_of d (fuseResults T' V q) = Some vector_only \<and>
           text_only < both \<and> vector_only < both"
proof -
  from assms(5) obtain i where i: "rank_of d (map rid T) = Some i"
    using rank_of_None[of d "map rid T"] by (cases "rank_of d (map rid T)") auto
  from assms(6) obtain j where j: "rank_of d (map rid V) = Some j"
    using rank_of_None[of d "map rid V"] by (cases "rank_of d (map rid V)") auto
  have nT: "rank_of d (map rid T') = None" using assms(7) by (simp add: rank_of_None)
  have nV: "rank_of d (map rid V') = None" using assms(8) by (simp add: rank_of_None)
  have ij: "1 \<le> i" "1 \<le> j" using rank_of_pos[OF i] rank_of_pos[OF j] by simp_all
  have b: "score_of d (fuseResults T V q) = Some (fused_score (Some i) (Some j))"
    using score_of_fuseResults[OF assms(1,2), of d q] assms(5) i j by simp
  have t: "score_of d (fuseResults T V' q) = Some (fused_score (Some i) None)"
    using score_of_fuseResults[OF assms(1,4), of d q] assms(5) i nV by simp
  have v: "score_of d (fuseResults T' V q) = Some (fused_score None (Some j))"
    using score_of_fuseResults[OF assms(3,2), of d q] assms(6) j nT by simp
  show ?thesis
    using b t v fused_score_both_gt_text[OF ij] fused_score_both_gt_vector[OF ij] by simp
qed

theorem both_lists_beat_one_witness:
  "distinct (map rid [doc1, doc2]) \<and> distinct (map rid [doc3, doc2]) \<and>
   distinct (map rid [doc1]) \<and> distinct (map rid [doc3]) \<and>
   ''d2'' \<in> rid ` set [doc1, doc2] \<and> ''d2'' \<in> rid ` set [doc3, doc2] \<and>
   ''d2'' \<notin> rid ` set [doc1] \<and> ''d2'' \<notin> rid ` set [doc3] \<and>
   (\<exists>both text_only vector_only.
      score_of ''d2'' (fuseResults [doc1, doc2] [doc3, doc2] ''q'') = Some both \<and>
      score_of ''d2'' (fuseResults [doc1, doc2] [doc3] ''q'') = Some text_only \<and>
      score_of ''d2'' (fuseResults [doc1] [doc3, doc2] ''q'') = Some vector_only \<and>
      text_only < both \<and> vector_only < both)"
proof -
  have h: "distinct (map rid [doc1, doc2])" "distinct (map rid [doc3, doc2])"
    "distinct (map rid [doc1])" "distinct (map rid [doc3])"
    "''d2'' \<in> rid ` set [doc1, doc2]" "''d2'' \<in> rid ` set [doc3, doc2]"
    "''d2'' \<notin> rid ` set [doc1]" "''d2'' \<notin> rid ` set [doc3]"
    by (simp_all add: doc1_def doc2_def doc3_def)
  show ?thesis using h both_lists_beat_one[OF h, of "''q''"] by blast
qed

text \<open>
  Claim C4 says that every fused score is at most \<open>3 / 61 * 1.2 * 1.1\<close>, that the clamp
  therefore never binds, and that \<^verbatim>\<open>hybridSearch\<close> with \<^verbatim>\<open>minScore\<close> at least \<open>0.065\<close>
  always returns the empty list.  The last part fails: \<^verbatim>\<open>hybridSearch\<close> passes on the
  exception of SQLite for a query that \<^verbatim>\<open>MATCH\<close> rejects, such as \<^verbatim>\<open>c++\<close>, and, with the
  package \<^verbatim>\<open>natural\<close> as it is published, the \<^verbatim>\<open>TypeError\<close> of \<^verbatim>\<open>embed\<close> for every other
  query; in both calls it returns no list.
\<close>

theorem hybridSearch_throws:
  "fst (hybridSearch fts3 natural_pkg new_EmbeddingEngine db3 ''c++''
          \<lparr> opt_limit = 5, opt_collection = None, opt_minScore = 0.065 \<rparr>)
     = Inl (SqliteError ''fts5: syntax error'') \<and>
   fst (hybridSearch fts3 natural_pkg new_EmbeddingEngine db3 ''api''
          \<lparr> opt_limit = 5, opt_collection = None, opt_minScore = 0.065 \<rparr>)
     = Inl (TypeError ''natural.WordTokenizer.tokenize is not a function'')"
proof -
  have p: "as_published natural_pkg" by (simp add: as_published_def natural_pkg_def)
  show ?thesis
    by (simp add: hybridSearch_published[OF p] fts3_def)
qed

text \<open>
  Claim C4, amended.  For result lists in which every id occurs at most once, every fused
  score is at most \<open>3 / 61 * 1.2 * 1.1\<close> and equals the boosted sum itself, so the clamp does
  not change it, and the filter by a \<^verbatim>\<open>minScore\<close> of at least \<open>0.065\<close> leaves nothing of
  the fused list.  On a database whose ids and row numbers are unique, \<^verbatim>\<open>hybridSearch\<close>
  with such a \<^verbatim>\<open>minScore\<close> therefore returns no result: it throws, or it returns the empty
  list.
\<close>

theorem fused_scores_stay_below_threshold:
  "(distinct (map rid T) \<and> distinct (map rid V) \<longrightarrow>
      (\<forall>r \<in> set (fuseResults T V q).
         rscore r \<le> 3 / 61 * 1.2 * 1.1 \<and>
         rscore r = boosted_sum (rank_of (rid r) (map rid T)) (rank_of (rid r) (map rid V))) \<and>
      (0.065 \<le> m \<longrightarrow>
         take n (filter (\<lambda>result. rscore result \<ge> m) (fuseResults T V q)) = [])) \<and>
   (primary_keys db \<and> distinct (map (rowid fts) (documents db)) \<and>
    0.065 \<le> opt_minScore options \<longrightarrow>
      (\<exists>e. fst (hybridSearch fts lib st db query options) = Inl e) \<or>
      fst (hybridSearch fts lib st db query options) = Inr [])"
proof (intro conjI impI ballI)
  fix r
  assume d: "distinct (map rid T) \<and> distinct (map rid V)" and r: "r \<in> set (fuseResults T V q)"
  show "rscore r \<le> 3 / 61 * 1.2 * 1.1"
    using fuseResults_bound(2)[of T V r q] d r by simp
  show "rscore r = boosted_sum (rank_of (rid r) (map rid T)) (rank_of (rid r) (map rid V))"
    using fuseResults_bound(1)[of T V r q] d r by simp
next
  assume "distinct (map rid T) \<and> distinct (map rid V)" "0.065 \<le> m"
  then show "take n (filter (\<lambda>result. rscore result \<ge> m) (fuseResults T V q)) = []"
    using fused_filter_empty[of T V m q] by simp
next
  assume "primary_keys db \<and> distinct (map (rowid fts) (documents db)) \<and>
    0.065 \<le> opt_minScore options"
  then show "(\<exists>e. fst (hybridSearch fts lib st db query options) = Inl e) \<or>
      fst (hybridSearch fts lib st db query options) = Inr []"
    using hybridSearch_never_returns_a_result[of db fts options lib st query] by simp
qed

theorem fused_scores_stay_below_threshold_witness:
  "distinct (map rid [doc1, doc2]) \<and> distinct (map rid [doc2, doc3]) \<and>
   list_all (\<lambda>r. rscore r \<le> 3 / 61 * 1.2 * 1.1 \<and>
                  rscore r = boosted_sum (rank_of (rid r) (map rid [doc1, doc2]))
                                         (rank_of (rid r) (map rid [doc2, doc3])))
     (fuseResults [doc1, doc2] [doc2, doc3] ''q'') \<and>
   (0.065::real) \<le> 0.065 \<and>
   take 5 (filter (\<lambda>result. rscore result \<ge> 0.065)
             (fuseResults [doc1, doc2] [doc2, doc3] ''q'')) = [] \<and>
   primary_keys db3 \<and> distinct (map (rowid fts3) (documents db3)) \<and>
   0.065 \<le> opt_minScore \<lparr> opt_limit = 5, opt_collection = None, opt_minScore = 0.065 \<rparr> \<and>
   ((\<exists>e. fst (hybridSearch fts3 natural_pkg new_EmbeddingEngine db3 ''api''
               \<lparr> opt_limit = 5, opt_collection = None, opt_minScore = 0.065 \<rparr>) = Inl e) \<or>
    fst (hybridSearch fts3 natural_pkg new_EmbeddingEngine db3 ''api''
           \<lparr> opt_limit = 5, opt_collection = None, opt_minScore = 0.065 \<rparr>) = Inr [])"
proof -
  have h: "distinct (map rid [doc1, doc2]) \<and> distinct (map rid [doc2, doc3])"
    by (simp add: doc1_def doc2_def doc3_def)
  have m: "(0.065::real) \<le> 0.065" by simp
  have k: "primary_keys db3 \<and> distinct (map (rowid fts3) (documents db3)) \<and>
     0.065 \<le> opt_minScore \<lparr> opt_limit = 5, opt_collection = None, opt_minScore = 0.065 \<rparr>"
    by (simp add: primary_keys_def db3_def docA_def docB_def docC_def coll_notes_def fts3_def)
  show ?thesis
    unfolding list_all_iff
    using h m k
      fused_scores_stay_below_threshold[of "[doc1, doc2]" "[doc2, doc3]" "''q''" "0.065" 5 db3
        fts3 "\<lparr> opt_limit = 5, opt_collection = None, opt_minScore = 0.065 \<rparr>"
        natural_pkg new_EmbeddingEngine "''api''"]
    by blast
qed

text \<open>
  Claim C5 says that for a fixed path a change of the modification time always gives a
  different id.  The file \<^verbatim>\<open>/n/a.md\<close> gets the id \<^verbatim>\<open>26be7385\<close> when it is modified at
  1700000032507 and again when it is modified at 1700000090854, 58 seconds later.  An id is
  eight hexadecimal digits, so there are \<open>2 ^ 32\<close> ids: whatever the hash function is, for
  every path and every time \<open>T\<close> two of the \<open>2 ^ 32 + 1\<close> modification times from \<open>T\<close> to
  \<open>T + 2 ^ 32\<close> milliseconds get the same id.
\<close>

theorem generateDocumentId_collides:
  "generateDocumentId sha256_digest ''/n/a.md'' 1700000032507 = ''26be7385'' \<and>
   generateDocumentId sha256_digest ''/n/a.md'' 1700000090854 = ''26be7385'' \<and>
   (\<forall>sha p T. \<exists>m1 m2. T \<le> m1 \<and> m1 < m2 \<and> m2 \<le> T + 2 ^ 32 \<and>
      generateDocumentId sha p m1 = generateDocumentId sha p m2)"
  using id_at_1700000032507 id_at_1700000090854 generateDocumentId_collision by blast

text \<open>
  Claim C5, amended.  The id is a function of the path and the modification time alone
  (the file content is no argument of it): equal pairs give equal ids.  It consists of
  exactly eight lower-case hexadecimal digits, which print the 32 leading bits of the
  SHA-256 digest of the path followed by the decimal modification time.  For a fixed path,
  two different modification times give two different hashed messages, and their ids
  differ exactly when the 32 leading bits of the two digests differ.
\<close>

theorem generateDocumentId_properties:
  "length (generateDocumentId sha p m) = 8 \<and>
   set (generateDocumentId sha p m) \<subseteq> set ''0123456789abcdef'' \<and>
   generateDocumentId sha p m = digest_hex (digest_top32 (sha (p @ number_toString m))) \<and>
   (p = p' \<and> m = m' \<longrightarrow> generateDocumentId sha p m = generateDocumentId sha p' m') \<and>
   (m \<noteq> m' \<longrightarrow> p @ number_toString m \<noteq> p @ number_toString m') \<and>
   (generateDocumentId sha p m \<noteq> generateDocumentId sha p m' \<longleftrightarrow>
      digest_top32 (sha (p @ number_toString m)) \<noteq> digest_top32 (sha (p @ number_toString m')))"
  using length_generateDocumentId[of sha p m] set_generateDocumentId[of sha p m]
    generateDocumentId_top32[of sha p m] number_toString_inj[of m m']
    generateDocumentId_eq_iff[of sha p m p m']
  by auto

theorem generateDocumentId_properties_witness:
  "(1000::int) \<noteq> 2000 \<and>
   length (generateDocumentId sha256_digest ''/n/a.md'' 1000) = 8 \<and>
   ''/n/a.md'' @ number_toString 1000 \<noteq> ''/n/a.md'' @ number_toString 2000 \<and>
   digest_top32 (sha256_digest (''/n/a.md'' @ number_toString 1000)) \<noteq>
     digest_top32 (sha256_digest (''/n/a.md'' @ number_toString 2000)) \<and>
   generateDocumentId sha256_digest ''/n/a.md'' 1000 \<noteq>
     generateDocumentId sha256_digest ''/n/a.md'' 2000"
proof -
  have h: "(1000::int) \<noteq> 2000" by simp
  have d: "digest_top32 (sha256_digest (''/n/a.md'' @ number_toString 1000)) \<noteq>
     digest_top32 (sha256_digest (''/n/a.md'' @ number_toString 2000))"
    unfolding top32_at_1000 top32_at_2000 by simp
  show ?thesis
    using h d
      generateDocumentId_properties[of sha256_digest "''/n/a.md''" 1000 "''/n/a.md''" 2000]
    by blast
qed

text \<open>
  Claim C6 says that a pass deletes every stored document whose path was not seen.  The id
  of a document changes with the modification time and \<^verbatim>\<open>INSERT OR REPLACE\<close> replaces by
  id, so indexing \<^verbatim>\<open>/n/a.md\<close> at time 1000 and again at time 2000 leaves two documents
  with this path.  When the file is deleted, the next pass looks up one document per
  unseen path: it deletes the first, reports \<^verbatim>\<open>removed = 1\<close>, and the second document of
  the unseen path stays in the store.
\<close>

theorem stale_document_survives_removal:
  "indexCollection env_v1 db_v0 ''notes'' =
     Inr (db_v1, \<lparr> indexed = 1, skipped = 0, removed = 0 \<rparr>) \<and>
   indexCollection env_v2 db_v1 ''notes'' =
     Inr (db_v2, \<lparr> indexed = 1, skipped = 0, removed = 0 \<rparr>) \<and>
   map d_path (documents db_v2) = [''/n/a.md'', ''/n/a.md''] \<and>
   indexCollection env_gone db_v2 ''notes'' =
     Inr (db_v3, \<lparr> indexed = 0, skipped = 0, removed = 1 \<rparr>) \<and>
   map d_path (documents db_v3) = [''/n/a.md'']"
proof -
  have "indexCollection env_v1 db_v0 ''notes'' =
     Inr (db_v1, \<lparr> indexed = 1, skipped = 0, removed = 0 \<rparr>)"
    by code_simp
  moreover have "indexCollection env_v2 db_v1 ''notes'' =
     Inr (db_v2, \<lparr> indexed = 1, skipped = 0, removed = 0 \<rparr>)"
    by code_simp
  moreover have "indexCollection env_gone db_v2 ''notes'' =
     Inr (db_v3, \<lparr> indexed = 0, skipped = 0, removed = 1 \<rparr>)"
    by code_simp
  ultimately show ?thesis
    by (simp add: db_v2_def db_v3_def db_v0_def doc_v1_def doc_v2_def)
qed

text \<open>
  Claim C7 says that \<^verbatim>\<open>embed\<close> returns a vector of 384 components that has Euclidean
  length 1, or the vector of 384 zeros for a text without tokens.  The body normalises the
  feature vector and has the early return, but before both it calls
  \<^verbatim>\<open>natural.WordTokenizer.tokenize\<close> on the class, where the package has no such function.
  With the package as it is published, \<^verbatim>\<open>embed\<close> therefore throws a \<^verbatim>\<open>TypeError\<close> for the
  text \<^verbatim>\<open>Rotate API-keys!\<close>, for the text \<^verbatim>\<open>?!\<close> that has no token, and for every other
  text on every engine: it returns neither a unit vector nor the zero vector.
\<close>

theorem embed_throws_TypeError:
  "fst (embed natural_pkg new_EmbeddingEngine ''Rotate API-keys!'') =
     Inl (TypeError ''natural.WordTokenizer.tokenize is not a function'') \<and>
   fst (embed natural_pkg new_EmbeddingEngine ''?!'') =
     Inl (TypeError ''natural.WordTokenizer.tokenize is not a function'') \<and>
   (\<forall>st text. fst (embed natural_pkg st text) =
     Inl (TypeError ''natural.WordTokenizer.tokenize is not a function''))"
  by (simp add: embed_def natural_pkg_def Let_def)

text \<open>
  Claim C8 says that two calls of \<^verbatim>\<open>embed\<close> with the same text return equal vectors
  whatever was embedded between them, because the temporary document is removed again.
  The body adds the document and removes it, but the call of
  \<^verbatim>\<open>natural.WordTokenizer.tokenize\<close> before it throws, the same defect as under claim C7.
  With the package as it is published, a first call of \<^verbatim>\<open>embed\<close>, a batch of another text
  and a second call with the first text all throw the \<^verbatim>\<open>TypeError\<close>, and the corpus is
  never touched: no two calls return vectors.
\<close>

theorem embed_twice_throws:
  "fst (embed natural_pkg new_EmbeddingEngine ''rotate api keys'') =
     Inl (TypeError ''natural.WordTokenizer.tokenize is not a function'') \<and>
   fst (embedBatch natural_pkg
          (snd (embed natural_pkg new_EmbeddingEngine ''rotate api keys''))
          [''deploy the gateway'']) =
     Inl (TypeError ''natural.WordTokenizer.tokenize is not a function'') \<and>
   fst (embed natural_pkg
          (snd (embedBatch natural_pkg
                  (snd (embed natural_pkg new_EmbeddingEngine ''rotate api keys''))
                  [''deploy the gateway'']))
          ''rotate api keys'') =
     Inl (TypeError ''natural.WordTokenizer.tokenize is not a function'') \<and>
   tfidf_documents
     (snd (embedBatch natural_pkg
             (snd (embed natural_pkg new_EmbeddingEngine ''rotate api keys''))
             [''deploy the gateway''])) = []"
proof -
  have p: "as_published natural_pkg" by (simp add: as_published_def natural_pkg_def)
  have 1: "fst (embed natural_pkg new_EmbeddingEngine ''rotate api keys'') =
     Inl (TypeError ''natural.WordTokenizer.tokenize is not a function'')"
    by (rule embed_published(1)[OF p])
  have 2: "fst (embedBatch natural_pkg
          (snd (embed natural_pkg new_EmbeddingEngine ''rotate api keys''))
          [''deploy the gateway'']) =
     Inl (TypeError ''natural.WordTokenizer.tokenize is not a function'')"
    by (rule embedBatch_published(1)[OF p])
  have 3: "fst (embed natural_pkg
          (snd (embedBatch natural_pkg
                  (snd (embed natural_pkg new_EmbeddingEngine ''rotate api keys''))
                  [''deploy the gateway'']))
          ''rotate api keys'') =
     Inl (TypeError ''natural.WordTokenizer.tokenize is not a function'')"
    by (rule embed_published(1)[OF p])
  have "tfidf_documents
     (snd (embedBatch natural_pkg
             (snd (embed natural_pkg new_EmbeddingEngine ''rotate api keys''))
             [''deploy the gateway''])) =
     tfidf_documents (snd (embed natural_pkg new_EmbeddingEngine ''rotate api keys''))"
    by (rule embedBatch_published(2)[OF p])
  also have "\<dots> = tfidf_documents new_EmbeddingEngine"
    by (rule embed_published(2)[OF p])
  also have "\<dots> = []"
    by (simp add: new_EmbeddingEngine_def)
  finally have 4: "tfidf_documents
     (snd (embedBatch natural_pkg
             (snd (embed natural_pkg new_EmbeddingEngine ''rotate api keys''))
             [''deploy the gateway''])) = []" .
  show ?thesis
    by (rule conjI[OF 1 conjI[OF 2 conjI[OF 3 4]]])
qed

text \<open>
  Claim C9.  For every registered collection and whatever \<^verbatim>\<open>statSync\<close>, \<^verbatim>\<open>readFileSync\<close>
  and the parser do on each file, \<^verbatim>\<open>indexCollection\<close> returns its counts: a file whose
  stored document is current is counted as skipped, a file whose own steps all succeed is
  counted as indexed, wherever the files that throw stand in the list; a file that throws
  still counts as seen when stored documents are removed.  The store that the call leaves
  is the store after \<^verbatim>\<open>addDocument\<close> for every file whose steps all succeed, in the order
  of the list, and after the removal of the unseen paths; and when no two ids clash, the
  row of every such file, with its id, path, title, content, collection, size and
  modification time, is in that store.
\<close>

theorem per_file_errors_do_not_abort:
  assumes "distinct (map c_name (collections db))" and "c \<in> set (collections db)"
  shows "\<exists>db'. indexCollection env db (c_name c) =
           Inr (db',
             \<lparr> indexed = length (filter
                  (\<lambda>f. file_outcome env (getDocumentsByCollection db (c_name c)) f = Indexed)
                  (glob env (c_path c) (c_mask c))),
               skipped = length (filter
                  (\<lambda>f. file_outcome env (getDocumentsByCollection db (c_name c)) f = Skipped)
                  (glob env (c_path c) (c_mask c))),
               removed = length (filter (\<lambda>p. p \<notin> set (glob env (c_path c) (c_mask c)))
                  (new_Set (map d_path (getDocumentsByCollection db (c_name c))))) \<rparr>) \<and>
           db' = foldl (remove_path (getDocumentsByCollection db (c_name c)))
                   (foldl (store_file env c) db
                      (filter
                         (\<lambda>f. file_outcome env (getDocumentsByCollection db (c_name c)) f = Indexed)
                         (glob env (c_path c) (c_mask c))))
                   (filter (\<lambda>p. p \<notin> set (glob env (c_path c) (c_mask c)))
                      (new_Set (map d_path (getDocumentsByCollection db (c_name c))))) \<and>
           (no_id_clash env (getDocumentsByCollection db (c_name c)) (glob env (c_path c) (c_mask c))
              \<longrightarrow>
            (\<forall>f \<in> set (glob env (c_path c) (c_mask c)).
               file_outcome env (getDocumentsByCollection db (c_name c)) f = Indexed \<longrightarrow>
               (\<exists>d. indexed_document env c f = Some d \<and> d \<in> set (documents db'))))"
  using indexCollection_store[OF assms, of env]
    pass_stores_indexed_file[of env "getDocumentsByCollection db (c_name c)"
      "glob env (c_path c) (c_mask c)" _ c db
      "new_Set (map d_path (getDocumentsByCollection db (c_name c)))"]
  by simp

theorem per_file_errors_do_not_abort_witness:
  "distinct (map c_name (collections db3)) \<and> coll_notes \<in> set (collections db3) \<and>
   statSync env_mixed ''/n/bad.md'' = None \<and>
   glob env_mixed (c_path coll_notes) (c_mask coll_notes) = [''/n/a.md'', ''/n/bad.md'', ''/n/new.md''] \<and>
   no_id_clash env_mixed (getDocumentsByCollection db3 (c_name coll_notes))
     (glob env_mixed (c_path coll_notes) (c_mask coll_notes)) \<and>
   file_outcome env_mixed (getDocumentsByCollection db3 (c_name coll_notes)) ''/n/new.md'' = Indexed \<and>
   indexCollection env_mixed db3 (c_name coll_notes) =
     Inr (db_mixed, \<lparr> indexed = 1, skipped = 1, removed = 2 \<rparr>) \<and>
   indexed_document env_mixed coll_notes ''/n/new.md'' = Some doc_new \<and>
   doc_new \<in> set (documents db_mixed)"
proof -
  have h: "distinct (map c_name (collections db3))" "coll_notes \<in> set (collections db3)"
    by (simp_all add: db3_def)
  have g: "statSync env_mixed ''/n/bad.md'' = None"
    "glob env_mixed (c_path coll_notes) (c_mask coll_notes) = [''/n/a.md'', ''/n/bad.md'', ''/n/new.md'']"
    by (simp_all add: env_mixed_def)
  have ex: "getDocumentsByCollection db3 (c_name coll_notes) = [docA, docB, docC]"
    by code_simp
  have ida: "file_id env_mixed ''/n/a.md'' = Some ''db2f511c''"
    by code_simp
  have idb: "file_id env_mixed ''/n/bad.md'' = None"
    by (simp add: file_id_def env_mixed_def)
  have idn: "file_id env_mixed ''/n/new.md'' = Some ''b38fa5a2''"
    by code_simp
  have clash: "no_id_clash env_mixed (getDocumentsByCollection db3 (c_name coll_notes))
     (glob env_mixed (c_path coll_notes) (c_mask coll_notes))"
    unfolding ex g(2) no_id_clash_def
    by (simp add: ida idb idn docA_def docB_def docC_def)
  have oa: "file_outcome env_mixed [docA, docB, docC] ''/n/a.md'' = Skipped"
    by code_simp
  have ob: "file_outcome env_mixed [docA, docB, docC] ''/n/bad.md'' = Failed"
    by code_simp
  have on: "file_outcome env_mixed [docA, docB, docC] ''/n/new.md'' = Indexed"
    by code_simp
  have dn: "indexed_document env_mixed coll_notes ''/n/new.md'' = Some doc_new"
    using idn
    by (simp add: indexed_document_def file_id_def env_mixed_def doc_new_def coll_notes_def)
  have st: "foldl (remove_path [docA, docB, docC])
              (foldl (store_file env_mixed coll_notes) db3 [''/n/new.md''])
              [''/n/b.md'', ''/n/c.md''] = db_mixed"
    by (simp add: store_file_def dn addDocument_def remove_path_def removeDocument_def
        db_mixed_def db3_def doc_new_def docA_def docB_def docC_def)
  have un: "filter (\<lambda>p. p \<notin> set [''/n/a.md'', ''/n/bad.md'', ''/n/new.md''])
              (new_Set (map d_path [docA, docB, docC])) = [''/n/b.md'', ''/n/c.md'']"
    by code_simp
  have fi: "filter (\<lambda>f. file_outcome env_mixed [docA, docB, docC] f = Indexed)
              [''/n/a.md'', ''/n/bad.md'', ''/n/new.md''] = [''/n/new.md'']"
    by (simp add: oa ob on)
  have fs: "filter (\<lambda>f. file_outcome env_mixed [docA, docB, docC] f = Skipped)
              [''/n/a.md'', ''/n/bad.md'', ''/n/new.md''] = [''/n/a.md'']"
    by (simp add: oa ob on)
  have mem: "doc_new \<in> set (documents db_mixed)"
    by (simp add: db_mixed_def)
  note t = per_file_errors_do_not_abort[OF h, of env_mixed, unfolded ex g(2) fi fs un st]
  have ic: "indexCollection env_mixed db3 (c_name coll_notes) =
     Inr (db_mixed, \<lparr> indexed = 1, skipped = 1, removed = 2 \<rparr>)"
    using t by auto
  have on': "file_outcome env_mixed (getDocumentsByCollection db3 (c_name coll_notes)) ''/n/new.md''
     = Indexed"
    unfolding ex by (rule on)
  show ?thesis
    using h g clash on' ic dn mem by blast
qed




end
